theory Spec2Isabelle
  imports Complex_Main
begin

section \<open>Conventions of the embedding\<close>

text \<open>
  The numerical engine of lif_meanfield_tools (\<^verbatim>\<open>aux_calcs.py\<close> and
  \<^verbatim>\<open>meanfield_calcs.py\<close>) is embedded function by function.

  \<^item> Python and numpy floating-point numbers are idealised as \<^typ>\<open>real\<close> and
    \<^typ>\<open>complex\<close>: rounding, overflow, infinities and NaN are outside the model.
  \<^item> A one-dimensional array is a list, a matrix is a list of rows.
  \<^item> A \<^verbatim>\<open>while\<close> loop without an iteration bound is a
    \<^theory_text>\<open>partial_function (option)\<close>; \<open>None\<close> means that the loop never exits.
  \<^item> A raised exception is a value \<open>Inl e\<close> of a sum type.
  \<^item> Functions of scipy, numpy and mpmath whose code is not part of the repository
    (\<^verbatim>\<open>zetac\<close>, \<^verbatim>\<open>erf\<close>, \<^verbatim>\<open>quad\<close>, \<^verbatim>\<open>pcfu\<close>,
    \<^verbatim>\<open>linalg.eig\<close>, \<^verbatim>\<open>linalg.inv\<close>) are parameters, collected in the
    record \<open>numlib\<close>.
  \<^item> The unit decorators (\<^verbatim>\<open>ureg.wraps\<close>) only convert between quantities and
    magnitudes; the model works on the magnitudes.
\<close>

datatype py_error = TypeError | IndexError | ValueError | LinAlgError

type_synonym cmatrix = "complex list list"

record numlib =
  zetac :: "real \<Rightarrow> real"
  erf :: "real \<Rightarrow> real"
  cerf :: "complex \<Rightarrow> complex"
  quad :: "(real \<Rightarrow> real) \<Rightarrow> real \<Rightarrow> real \<Rightarrow> real"
  pcfu :: "complex \<Rightarrow> real \<Rightarrow> complex"
  eig :: "cmatrix \<Rightarrow> (py_error + complex list \<times> cmatrix)"
  inv :: "cmatrix \<Rightarrow> (py_error + cmatrix)"

section \<open>aux\_calcs: stationary rate for delta-shaped synaptic input\<close>

subsection \<open>siegert1\<close>

text \<open>The local function \<^verbatim>\<open>integrand\<close> of \<^verbatim>\<open>siegert1\<close>.\<close>

definition siegert1_integrand :: "real \<Rightarrow> real \<Rightarrow> real \<Rightarrow> real" where
  "siegert1_integrand y_th y_r u =
     (if u = 0 then exp (- (y_th ^ 2)) * 2 * (y_th - y_r)
      else exp (- ((u - y_th) ^ 2)) * (1 - exp (2 * (y_r - y_th) * u)) / u)"

text \<open>
  \<^verbatim>\<open>while err_dn > 1e-12 and lower_bound > 1e-16:\<close>
  \<^verbatim>\<open>    err_dn = integrand(lower_bound)\<close>
  \<^verbatim>\<open>    if err_dn > 1e-12: lower_bound /= 2\<close>
\<close>

partial_function (option) siegert1_lower :: "(real \<Rightarrow> real) \<Rightarrow> real \<Rightarrow> real \<Rightarrow> real option" where
  "siegert1_lower f lower_bound err_dn =
     (if err_dn > 1 / 10 ^ 12 \<and> lower_bound > 1 / 10 ^ 16
      then (if f lower_bound > 1 / 10 ^ 12
            then siegert1_lower f (lower_bound / 2) (f lower_bound)
            else siegert1_lower f lower_bound (f lower_bound))
      else Some lower_bound)"

text \<open>
  \<^verbatim>\<open>while err_up > 1e-12:\<close>
  \<^verbatim>\<open>    err_up = integrand(upper_bound)\<close>
  \<^verbatim>\<open>    if err_up > 1e-12: upper_bound *= 2\<close>
\<close>

partial_function (option) siegert1_upper :: "(real \<Rightarrow> real) \<Rightarrow> real \<Rightarrow> real \<Rightarrow> real option" where
  "siegert1_upper f upper_bound err_up =
     (if err_up > 1 / 10 ^ 12
      then (if f upper_bound > 1 / 10 ^ 12
            then siegert1_upper f (upper_bound * 2) (f upper_bound)
            else siegert1_upper f upper_bound (f upper_bound))
      else Some upper_bound)"

definition siegert1 ::
  "numlib \<Rightarrow> real \<Rightarrow> real \<Rightarrow> real \<Rightarrow> real \<Rightarrow> real \<Rightarrow> real \<Rightarrow> real option" where
  "siegert1 L tau_m tau_r V_th_rel V_0_rel mu sigma =
     (let y_th = (V_th_rel - mu) / sigma;
          y_r = (V_0_rel - mu) / sigma;
          integrand = siegert1_integrand y_th y_r
      in case siegert1_lower integrand y_th 1 of
           None \<Rightarrow> None
         | Some lower_bound \<Rightarrow>
             (case siegert1_upper integrand y_th 1 of
                None \<Rightarrow> None
              | Some upper_bound \<Rightarrow>
                  Some (if y_th \<ge> 20 then 0
                        else 1 / (tau_r + exp (y_th ^ 2)
                                    * quad L integrand lower_bound upper_bound * tau_m))))"

subsection \<open>siegert2\<close>

definition siegert2_integrand :: "real \<Rightarrow> real \<Rightarrow> real \<Rightarrow> real" where
  "siegert2_integrand y_th y_r u =
     (if u = 0 then 2 * (y_th - y_r)
      else (exp (2 * y_th * u - u ^ 2) - exp (2 * y_r * u - u ^ 2)) / u)"

text \<open>
  \<^verbatim>\<open>while err > 1e-12:\<close>
  \<^verbatim>\<open>    err = integrand(upper_bound)\<close>
  \<^verbatim>\<open>    upper_bound *= 2\<close>
\<close>

partial_function (option) siegert2_upper :: "(real \<Rightarrow> real) \<Rightarrow> real \<Rightarrow> real \<Rightarrow> real option" where
  "siegert2_upper f upper_bound err =
     (if err > 1 / 10 ^ 12
      then siegert2_upper f (upper_bound * 2) (f upper_bound)
      else Some upper_bound)"

definition siegert2 ::
  "numlib \<Rightarrow> real \<Rightarrow> real \<Rightarrow> real \<Rightarrow> real \<Rightarrow> real \<Rightarrow> real \<Rightarrow> real option" where
  "siegert2 L tau_m tau_r V_th_rel V_0_rel mu sigma =
     (let y_th = (V_th_rel - mu) / sigma;
          y_r = (V_0_rel - mu) / sigma;
          integrand = siegert2_integrand y_th y_r
      in case siegert2_upper integrand 1 1 of
           None \<Rightarrow> None
         | Some upper_bound \<Rightarrow>
             Some (1 / (tau_r + quad L integrand 0 upper_bound * tau_m)))"

subsection \<open>nu\_0\<close>

definition nu_0 ::
  "numlib \<Rightarrow> real \<Rightarrow> real \<Rightarrow> real \<Rightarrow> real \<Rightarrow> real \<Rightarrow> real \<Rightarrow> real option" where
  "nu_0 L tau_m tau_r V_th_rel V_0_rel mu sigma =
     (if mu \<le> V_th_rel + (95 / 100 * \<bar>V_th_rel\<bar> - \<bar>V_th_rel\<bar>)
      then siegert1 L tau_m tau_r V_th_rel V_0_rel mu sigma
      else siegert2 L tau_m tau_r V_th_rel V_0_rel mu sigma)"

section \<open>aux\_calcs: stationary rate for filtered synaptic input\<close>

definition Phi :: "numlib \<Rightarrow> real \<Rightarrow> real" where
  "Phi L s = sqrt (pi / 2) * (exp (s ^ 2 / 2) * (1 + erf L (s / sqrt 2)))"

text \<open>
  The local \<^verbatim>\<open>alpha = np.sqrt(2.) * abs(zetac(0.5) + 1)\<close>, computed in the same way
  in \<^verbatim>\<open>nu0_fb433\<close> and in \<^verbatim>\<open>transfer_function_1p_shift\<close>.
\<close>

definition alpha :: "numlib \<Rightarrow> real" where
  "alpha L = sqrt 2 * \<bar>zetac L (1 / 2) + 1\<bar>"

text \<open>
  The final \<^verbatim>\<open>math.isnan(result)\<close> test only prints; it has no counterpart over the reals.
\<close>

definition nu0_fb433 ::
  "numlib \<Rightarrow> real \<Rightarrow> real \<Rightarrow> real \<Rightarrow> real \<Rightarrow> real \<Rightarrow> real \<Rightarrow> real \<Rightarrow> real option" where
  "nu0_fb433 L tau_m tau_s tau_r V_th_rel V_0_rel mu sigma =
     (let x_th = sqrt 2 * (V_th_rel - mu) / sigma;
          x_r = sqrt 2 * (V_0_rel - mu) / sigma
      in if x_th > 20 / sqrt 2
         then nu_0 L tau_m tau_r V_th_rel V_0_rel mu sigma
         else (case nu_0 L tau_m tau_r V_th_rel V_0_rel mu sigma of
                 None \<Rightarrow> None
               | Some r \<Rightarrow>
                   (let dPhi = Phi L x_th - Phi L x_r
                    in Some (r - sqrt (tau_s / tau_m) * alpha L / (tau_m * sqrt 2)
                                   * dPhi * (r * tau_m) ^ 2))))"

definition d_nu_d_mu ::
  "numlib \<Rightarrow> real \<Rightarrow> real \<Rightarrow> real \<Rightarrow> real \<Rightarrow> real \<Rightarrow> real \<Rightarrow> real option" where
  "d_nu_d_mu L tau_m tau_r V_th_rel V_0_rel mu sigma =
     (let y_th = (V_th_rel - mu) / sigma;
          y_r = (V_0_rel - mu) / sigma
      in case nu_0 L tau_m tau_r V_th_rel V_0_rel mu sigma of
           None \<Rightarrow> None
         | Some nu0 \<Rightarrow>
             Some (sqrt pi * tau_m * nu0 ^ 2 / sigma
                   * (exp (y_th ^ 2) * (1 + erf L y_th) - exp (y_r ^ 2) * (1 + erf L y_r))))"

section \<open>aux\_calcs: the parabolic cylinder kernel\<close>

definition Psi :: "numlib \<Rightarrow> complex \<Rightarrow> real \<Rightarrow> complex" where
  "Psi L z x = of_real (exp (25 / 100 * x ^ 2)) * pcfu L z (- x)"

definition d_Psi :: "numlib \<Rightarrow> complex \<Rightarrow> real \<Rightarrow> complex" where
  "d_Psi L z x = (1 / 2 + z) * Psi L (z + 1) x"

definition Psi_x_r :: "numlib \<Rightarrow> complex \<Rightarrow> real \<Rightarrow> real \<Rightarrow> complex" where
  "Psi_x_r L z x y = Psi L z x - Psi L z y"

definition dPsi_x_r :: "numlib \<Rightarrow> complex \<Rightarrow> real \<Rightarrow> real \<Rightarrow> complex" where
  "dPsi_x_r L z x y = d_Psi L z x - d_Psi L z y"

section \<open>meanfield\_calcs: transfer function\<close>

text \<open>
  A positional call of \<^verbatim>\<open>d_nu_d_mu\<close>: Python binds the argument list to the six
  parameters \<^verbatim>\<open>(tau_m, tau_r, V_th_rel, V_0_rel, mu, sigma)\<close> and raises TypeError,
  before the body runs, when the number of arguments is not six.
\<close>

definition call_d_nu_d_mu :: "numlib \<Rightarrow> real list \<Rightarrow> (py_error + real) option" where
  "call_d_nu_d_mu L args =
     (if length args = 6
      then map_option Inr
             (d_nu_d_mu L (args ! 0) (args ! 1) (args ! 2) (args ! 3) (args ! 4) (args ! 5))
      else Some (Inl TypeError))"

definition transfer_function_1p_shift ::
  "numlib \<Rightarrow> real \<Rightarrow> real \<Rightarrow> real \<Rightarrow> real \<Rightarrow> real \<Rightarrow> real \<Rightarrow> real \<Rightarrow> real
     \<Rightarrow> (py_error + complex) option" where
  "transfer_function_1p_shift L mu sigma tau_m tau_s tau_r V_th_rel0 V_0_rel0 omega =
     (let V_th_rel = V_th_rel0 + sigma * alpha L / 2 * sqrt (tau_s / tau_m);
          V_0_rel = V_0_rel0 + sigma * alpha L / 2 * sqrt (tau_s / tau_m)
      in if \<bar>omega - 0\<bar> < 1 / 10 ^ 15
         then map_option (map_sum id of_real)
                (call_d_nu_d_mu L [tau_m, tau_s, tau_r, V_th_rel, V_0_rel, mu, sigma])
         else (case nu_0 L tau_m tau_r V_th_rel V_0_rel mu sigma of
                 None \<Rightarrow> None
               | Some nu \<Rightarrow>
                   (let x_t = sqrt 2 * (V_th_rel - mu) / sigma;
                        x_r = sqrt 2 * (V_0_rel - mu) / sigma;
                        z = Complex (- (1 / 2)) (omega * tau_m);
                        frac = dPsi_x_r L z x_t x_r / Psi_x_r L z x_t x_r
                    in Some (Inr (of_real (sqrt 2 / sigma * nu)
                                  / (1 + Complex 0 (omega * tau_m)) * frac)))))"

text \<open>
  A list comprehension evaluates its elements in order; the first element that does not
  return (or that raises) decides the outcome of the whole comprehension.
\<close>

fun collect :: "(py_error + 'a) option list \<Rightarrow> (py_error + 'a list) option" where
  "collect [] = Some (Inr [])"
| "collect (x # xs) =
     (case x of
        None \<Rightarrow> None
      | Some (Inl e) \<Rightarrow> Some (Inl e)
      | Some (Inr v) \<Rightarrow>
          (case collect xs of
             None \<Rightarrow> None
           | Some (Inl e) \<Rightarrow> Some (Inl e)
           | Some (Inr vs) \<Rightarrow> Some (Inr (v # vs))))"

text \<open>
  \<^verbatim>\<open>transfer_functions[0][0].units\<close> raises IndexError when the comprehension is
  empty in either direction.
\<close>

definition transfer_function ::
  "numlib \<Rightarrow> real list \<Rightarrow> real list \<Rightarrow> real \<Rightarrow> real \<Rightarrow> real \<Rightarrow> real \<Rightarrow> real \<Rightarrow> nat \<Rightarrow> real list
     \<Rightarrow> (py_error + cmatrix) option" where
  "transfer_function L mu sigma tau_m tau_s tau_r V_th_rel V_0_rel dimension omegas =
     (case collect (map (\<lambda>omega.
             collect (map (\<lambda>i.
                 if i < length mu \<and> i < length sigma
                 then transfer_function_1p_shift L (mu ! i) (sigma ! i) tau_m tau_s tau_r
                        V_th_rel V_0_rel omega
                 else Some (Inl IndexError)) [0..<dimension])) omegas) of
        None \<Rightarrow> None
      | Some (Inl e) \<Rightarrow> Some (Inl e)
      | Some (Inr transfer_functions) \<Rightarrow>
          (case transfer_functions of
             [] \<Rightarrow> Some (Inl IndexError)
           | [] # _ \<Rightarrow> Some (Inl IndexError)
           | (_ # _) # _ \<Rightarrow> Some (Inr transfer_functions)))"

section \<open>meanfield\_calcs: fixed-point iteration of the rates\<close>

text \<open>
  Array operations are written with \<open>map\<close> and \<open>map2\<close>. They agree with numpy on
  operands of the shapes of the data model (all matrices \<open>dimension \<times> dimension\<close>, all
  vectors of length \<open>dimension\<close>); the theorems below state these shapes as hypotheses.
\<close>

definition dot :: "'a::comm_semiring_0 list \<Rightarrow> 'a list \<Rightarrow> 'a" where
  "dot v w = sum_list (map2 (*) v w)"

definition mat_vec :: "real list list \<Rightarrow> real list \<Rightarrow> real list" where
  "mat_vec A v = map (\<lambda>row. dot row v) A"

text \<open>The local function \<^verbatim>\<open>get_rate_difference\<close>, with \<^verbatim>\<open>rate_function\<close> inlined.\<close>

definition get_rate_difference ::
  "numlib \<Rightarrow> real \<Rightarrow> real \<Rightarrow> real \<Rightarrow> real \<Rightarrow> real \<Rightarrow> real list list \<Rightarrow> real list list
     \<Rightarrow> real \<Rightarrow> real \<Rightarrow> real list \<Rightarrow> real list \<Rightarrow> real list option" where
  "get_rate_difference L tau_m tau_s tau_r V_0_rel V_th_rel K J j nu_ext K_ext nu =
     (let m0 = map (\<lambda>x. x * tau_m) (mat_vec (map2 (map2 (*)) K J) nu);
          m_ext = map (\<lambda>k. j * k * nu_ext * tau_m) K_ext;
          mu = map2 (+) m0 m_ext;
          var0 = map (\<lambda>x. x * tau_m) (mat_vec (map2 (map2 (\<lambda>k w. k * w ^ 2)) K J) nu);
          var_ext = map (\<lambda>k. j ^ 2 * k * nu_ext * tau_m) K_ext;
          var = map2 (+) var0 var_ext;
          sigma = map sqrt var
      in case those (map2 (nu0_fb433 L tau_m tau_s tau_r V_th_rel V_0_rel) mu sigma) of
           None \<Rightarrow> None
         | Some new_nu \<Rightarrow> Some (map2 (\<lambda>a b. - a + b) nu new_nu))"

text \<open>
  The loop of \<^verbatim>\<open>firing_rates\<close> on the state \<^verbatim>\<open>(y[0], y[1], eps)\<close>. The built-in
  \<^verbatim>\<open>max\<close> raises ValueError on an empty array.
\<close>

partial_function (option) firing_rates_loop ::
  "(real list \<Rightarrow> real list option) \<Rightarrow> real list \<Rightarrow> real list \<Rightarrow> real
     \<Rightarrow> (py_error + real list) option" where
  "firing_rates_loop grd y0 y1 eps =
     (if eps \<ge> 1 / 10 ^ 5
      then (case grd y0 of
              None \<Rightarrow> None
            | Some delta_y \<Rightarrow>
                (let y1' = map2 (\<lambda>a d. a + d * (5 / 100)) y0 delta_y;
                     epsilon = map2 (-) y1' y0
                 in if epsilon = [] then Some (Inl ValueError)
                    else firing_rates_loop grd y1' y1' (Max (set (map abs epsilon)))))
      else Some (Inr y1))"

definition firing_rates ::
  "numlib \<Rightarrow> nat \<Rightarrow> real \<Rightarrow> real \<Rightarrow> real \<Rightarrow> real \<Rightarrow> real \<Rightarrow> real list list \<Rightarrow> real list list
     \<Rightarrow> real \<Rightarrow> real \<Rightarrow> real list \<Rightarrow> (py_error + real list) option" where
  "firing_rates L dimension tau_m tau_s tau_r V_0_rel V_th_rel K J j nu_ext K_ext =
     firing_rates_loop
       (get_rate_difference L tau_m tau_s tau_r V_0_rel V_th_rel K J j nu_ext K_ext)
       (replicate dimension 0) (replicate dimension 0) 1"

section \<open>meanfield\_calcs: delay distribution\<close>

definition Phi_complex :: "numlib \<Rightarrow> complex \<Rightarrow> complex" where
  "Phi_complex L s =
     of_real (sqrt (pi / 2)) * (exp (s ^ 2 / 2) * (1 + cerf L (s / of_real (sqrt 2))))"

definition ew_mul :: "cmatrix \<Rightarrow> cmatrix \<Rightarrow> cmatrix" where
  "ew_mul A B = map2 (map2 (*)) A B"

text \<open>
  The result is \<open>None\<close> when \<^verbatim>\<open>delay_dist\<close> is none of the three strings and the
  function body ends without a \<^verbatim>\<open>return\<close>.
\<close>

definition delay_dist_matrix_single ::
  "numlib \<Rightarrow> nat \<Rightarrow> real list list \<Rightarrow> real list list \<Rightarrow> string \<Rightarrow> real \<Rightarrow> cmatrix option" where
  "delay_dist_matrix_single L dimension Delay Delay_sd delay_dist omega =
     (if delay_dist = ''none''
      then (let D = replicate dimension (replicate dimension (1 :: complex))
            in Some (ew_mul D (map (map (\<lambda>d. exp (- Complex 0 omega * of_real d))) Delay)))
      else if delay_dist = ''truncated_gaussian''
      then Some (map2 (map2 (\<lambda>d sd.
             (let a0 = Phi_complex L (of_real (- d / sd) + \<i> * of_real omega * of_real sd);
                  a1 = Phi L (- d / sd);
                  b0 = exp (- (5 / 10) * (sd * omega) ^ 2);
                  b1 = exp (- Complex 0 omega * of_real d)
              in (1 - a0) / of_real (1 - a1) * of_real b0 * b1))) Delay Delay_sd)
      else if delay_dist = ''gaussian''
      then Some (map2 (map2 (\<lambda>d sd.
             (let b0 = exp (- (5 / 10) * (sd * omega) ^ 2);
                  b1 = exp (- Complex 0 omega * of_real d)
              in of_real b0 * b1))) Delay Delay_sd)
      else None)"

section \<open>meanfield\_calcs: spectral analysis\<close>

text \<open>
  The same four lines open \<^verbatim>\<open>sensitivity_measure\<close>,
  \<^verbatim>\<open>power_spectra_single_freq\<close> and \<^verbatim>\<open>eigen_spectra_single_freq\<close>:
  conjugation for negative frequencies, scaling, \<^verbatim>\<open>np.hstack\<close> of
  \<^verbatim>\<open>dimension\<close> copies (ValueError for an empty list of arrays) and
  \<^verbatim>\<open>reshape(dimension, dimension)\<close> (ValueError when the sizes differ) followed by
  the transposition, after which row \<open>a\<close> holds \<open>dimension\<close> copies of \<open>H[a]\<close>.
\<close>

definition effective_H ::
  "real \<Rightarrow> real \<Rightarrow> complex list \<Rightarrow> nat \<Rightarrow> real \<Rightarrow> py_error + cmatrix" where
  "effective_H tau_m tau_s transfer_function0 dimension omega =
     (let transfer_function =
            (if omega < 0 then map cnj transfer_function0 else transfer_function0);
          H = map (\<lambda>t. of_real tau_m * t / Complex 1 (omega * tau_s)) transfer_function
      in if dimension = 0 then Inl ValueError
         else if length H * dimension \<noteq> dimension * dimension then Inl ValueError
         else Inr (map (\<lambda>h. replicate dimension h) H))"

text \<open>\<^verbatim>\<open>np.argmin\<close>: the first index of the minimum, ValueError on an empty array.\<close>

fun argmin_scan :: "nat \<Rightarrow> real \<Rightarrow> nat \<Rightarrow> real list \<Rightarrow> nat" where
  "argmin_scan best best_val i [] = best"
| "argmin_scan best best_val i (v # vs) =
     (if v < best_val then argmin_scan i v (Suc i) vs
      else argmin_scan best best_val (Suc i) vs)"

definition argmin :: "real list \<Rightarrow> py_error + nat" where
  "argmin xs = (case xs of [] \<Rightarrow> Inl ValueError | x # rest \<Rightarrow> Inr (argmin_scan 0 x 1 rest))"

text \<open>
  \<^verbatim>\<open>index = None\<close> followed by \<^verbatim>\<open>if index is None: index = np.argmin(np.abs(e-1))\<close>.
\<close>

definition select_index :: "nat option \<Rightarrow> complex list \<Rightarrow> py_error + nat" where
  "select_index index e =
     (case index of
        None \<Rightarrow> argmin (map (\<lambda>x. cmod (x - 1)) e)
      | Some i \<Rightarrow> Inr i)"

definition outer :: "complex list \<Rightarrow> complex list \<Rightarrow> cmatrix" where
  "outer v w = map (\<lambda>x. map (\<lambda>y. x * y) w) v"

definition sensitivity_measure ::
  "numlib \<Rightarrow> complex list \<Rightarrow> cmatrix \<Rightarrow> real list list \<Rightarrow> real \<Rightarrow> real \<Rightarrow> nat \<Rightarrow> real
     \<Rightarrow> py_error + cmatrix" where
  "sensitivity_measure L transfer_function' delay_dist_matrix J tau_m tau_s dimension omega =
     (case effective_H tau_m tau_s transfer_function' dimension omega of
        Inl err \<Rightarrow> Inl err
      | Inr H \<Rightarrow>
          (let MH = ew_mul (ew_mul H (map (map of_real) J)) delay_dist_matrix
           in case eig L MH of
                Inl err \<Rightarrow> Inl err
              | Inr (e, U) \<Rightarrow>
                  (case inv L U of
                     Inl err \<Rightarrow> Inl err
                   | Inr U_inv \<Rightarrow>
                       (case select_index None e of
                          Inl err \<Rightarrow> Inl err
                        | Inr index \<Rightarrow>
                            if index < length U_inv \<and> (\<forall>row \<in> set U. index < length row)
                            then (let u_inv = U_inv ! index;
                                      u = map (\<lambda>row. row ! index) U
                                  in if length u_inv \<noteq> length u then Inl ValueError
                                     else Inr (ew_mul
                                            (map (map (\<lambda>t. t / dot u_inv u)) (outer u_inv u))
                                            MH))
                            else Inl IndexError))))"

definition identity :: "nat \<Rightarrow> cmatrix" where
  "identity n = map (\<lambda>a. map (\<lambda>b. if a = b then 1 else 0) [0..<n]) [0..<n]"

definition mat_mul :: "cmatrix \<Rightarrow> cmatrix \<Rightarrow> cmatrix" where
  "mat_mul A B = map (\<lambda>row. map (\<lambda>col. dot row col) (transpose B)) A"

definition diag :: "'a list list \<Rightarrow> 'a list" where
  "diag C = map (\<lambda>(i, row). row ! i) (filter (\<lambda>(i, row). i < length row) (zip [0..<length C] C))"

fun collect_err :: "(py_error + 'a) list \<Rightarrow> py_error + 'a list" where
  "collect_err [] = Inr []"
| "collect_err (x # xs) =
     (case x of
        Inl e \<Rightarrow> Inl e
      | Inr v \<Rightarrow> (case collect_err xs of Inl e \<Rightarrow> Inl e | Inr vs \<Rightarrow> Inr (v # vs)))"

definition power_spectra_single_freq ::
  "numlib \<Rightarrow> real \<Rightarrow> real \<Rightarrow> complex list \<Rightarrow> nat \<Rightarrow> real list list \<Rightarrow> real list list \<Rightarrow> cmatrix
     \<Rightarrow> real list \<Rightarrow> real list \<Rightarrow> real \<Rightarrow> py_error + real list" where
  "power_spectra_single_freq L tau_m tau_s transfer_function' dimension J K delay_dist_matrix
       firing_rates' N omega =
     (case effective_H tau_m tau_s transfer_function' dimension omega of
        Inl err \<Rightarrow> Inl err
      | Inr H \<Rightarrow>
          (let MH = ew_mul (ew_mul (ew_mul H (map (map of_real) J)) (map (map of_real) K))
                      delay_dist_matrix
           in case inv L (map2 (map2 (-)) (identity dimension) MH) of
                Inl err \<Rightarrow> Inl err
              | Inr Q \<Rightarrow>
                  (let D = map (\<lambda>row. map2 (\<lambda>x (r, n). x * of_real r / of_real n) row
                                         (zip firing_rates' N)) (identity dimension);
                       C = mat_mul Q (mat_mul D (transpose (map (map cnj) Q)))
                   in Inr (map cmod (diag C)))))"

definition power_spectra ::
  "numlib \<Rightarrow> real \<Rightarrow> real \<Rightarrow> nat \<Rightarrow> real list list \<Rightarrow> real list list \<Rightarrow> cmatrix list \<Rightarrow> real list
     \<Rightarrow> real list \<Rightarrow> cmatrix \<Rightarrow> real list \<Rightarrow> py_error + real list list" where
  "power_spectra L tau_m tau_s dimension J K delay_dist_matrix N firing_rates'
       transfer_function' omegas =
     (case collect_err (map (\<lambda>(i, omega).
               if i < length transfer_function' \<and> i < length delay_dist_matrix
               then power_spectra_single_freq L tau_m tau_s (transfer_function' ! i) dimension
                      J K (delay_dist_matrix ! i) firing_rates' N omega
               else Inl IndexError) (zip [0..<length omegas] omegas)) of
        Inl err \<Rightarrow> Inl err
      | Inr power' \<Rightarrow> Inr (transpose power'))"

section \<open>Quantities named by the specification\<close>

text \<open>
  The value \<^verbatim>\<open>np.exp(y_th**2) * quad(integrand, lower_bound, upper_bound)[0]\<close> of the
  last assignment of \<open>siegert1\<close>, and the value \<^verbatim>\<open>quad(integrand, 0.0, upper_bound)[0]\<close>
  of the return statement of \<open>siegert2\<close>: the integral of the specification's
  \<open>1 / (\<tau>r + \<tau>m \<cdot> integral)\<close>. Each is defined when the bracket search before it ends.
\<close>

definition siegert1_integral :: "numlib \<Rightarrow> real \<Rightarrow> real \<Rightarrow> real \<Rightarrow> real \<Rightarrow> real option" where
  "siegert1_integral L V_th_rel V_0_rel mu sigma =
     (let y_th = (V_th_rel - mu) / sigma;
          y_r = (V_0_rel - mu) / sigma;
          integrand = siegert1_integrand y_th y_r
      in case siegert1_lower integrand y_th 1 of
           None \<Rightarrow> None
         | Some lower_bound \<Rightarrow>
             (case siegert1_upper integrand y_th 1 of
                None \<Rightarrow> None
              | Some upper_bound \<Rightarrow>
                  Some (exp (y_th ^ 2) * quad L integrand lower_bound upper_bound)))"

definition siegert2_integral :: "numlib \<Rightarrow> real \<Rightarrow> real \<Rightarrow> real \<Rightarrow> real \<Rightarrow> real option" where
  "siegert2_integral L V_th_rel V_0_rel mu sigma =
     (let y_th = (V_th_rel - mu) / sigma;
          y_r = (V_0_rel - mu) / sigma;
          integrand = siegert2_integrand y_th y_r
      in case siegert2_upper integrand 1 1 of
           None \<Rightarrow> None
         | Some upper_bound \<Rightarrow> Some (quad L integrand 0 upper_bound))"

text \<open>
  A quadrature rule is sign-preserving when it gives a non-negative value for an integrand
  that is non-negative on the interval of integration.
\<close>

definition quad_nonneg :: "numlib \<Rightarrow> bool" where
  "quad_nonneg L \<longleftrightarrow>
     (\<forall>f a b. a \<le> b \<and> (\<forall>u. a \<le> u \<and> u \<le> b \<longrightarrow> 0 \<le> f u) \<longrightarrow> 0 \<le> quad L f a b)"

text \<open>
  scipy documents \<^verbatim>\<open>zetac(x)\<close> as the Riemann zeta function minus 1, so the Riemann
  zeta function of the specification is \<^verbatim>\<open>zetac(x) + 1\<close>.
\<close>

definition riemann_zeta :: "numlib \<Rightarrow> real \<Rightarrow> real" where
  "riemann_zeta L x = zetac L x + 1"

text \<open>
  The rule of the specification for the filtered rate, with the constant \<open>\<alpha>\<close> as a
  parameter: evaluate the delta-synapse rate \<open>r\<close>; return it unmodified when \<open>x_th\<close> lies
  beyond \<open>20 / \<surd>2\<close>, and otherwise return
  \<open>r - \<surd>(\<tau>s / \<tau>m) \<cdot> \<alpha> / (\<tau>m \<cdot> \<surd>2) \<cdot> (\<Phi>(x_th) - \<Phi>(x_r)) \<cdot> (r \<cdot> \<tau>m)\<^sup>2\<close>.
\<close>

definition filtered_rate_rule ::
  "real \<Rightarrow> numlib \<Rightarrow> real \<Rightarrow> real \<Rightarrow> real \<Rightarrow> real \<Rightarrow> real \<Rightarrow> real \<Rightarrow> real \<Rightarrow> real option" where
  "filtered_rate_rule a L tau_m tau_s tau_r V_th_rel V_0_rel mu sigma =
     (case nu_0 L tau_m tau_r V_th_rel V_0_rel mu sigma of
        None \<Rightarrow> None
      | Some r \<Rightarrow>
          (let x_th = sqrt 2 * (V_th_rel - mu) / sigma;
               x_r = sqrt 2 * (V_0_rel - mu) / sigma
           in Some (if x_th > 20 / sqrt 2 then r
                    else r - sqrt (tau_s / tau_m) * a / (tau_m * sqrt 2)
                               * (Phi L x_th - Phi L x_r) * (r * tau_m) ^ 2)))"

text \<open>The constant as the specification writes it: \<open>\<alpha> = \<surd>2 \<cdot> |\<zeta>(1/2) + 1|\<close>.\<close>

definition alpha_claimed :: "numlib \<Rightarrow> real" where
  "alpha_claimed L = sqrt 2 * \<bar>riemann_zeta L (1 / 2) + 1\<bar>"

text \<open>
  The relaxation of the specification, with the number of rounds bounded by a fuel
  argument: each round computes the updated rate vector and stops as soon as the maximum
  absolute change of the rate vector is below \<open>1e-5\<close>. The update is a parameter here; it is
  not defined when the evaluation of a candidate rate does not return.
\<close>

definition max_change :: "nat \<Rightarrow> real list \<Rightarrow> real list \<Rightarrow> real" where
  "max_change N nu nu' = Max ((\<lambda>i. \<bar>nu' ! i - nu ! i\<bar>) ` {..<N})"

fun relaxation :: "nat \<Rightarrow> (real list \<Rightarrow> real list option) \<Rightarrow> nat \<Rightarrow> real list \<Rightarrow> real list option" where
  "relaxation N update 0 nu = None"
| "relaxation N update (Suc fuel) nu =
     (case update nu of
        None \<Rightarrow> None
      | Some nu' \<Rightarrow>
          if max_change N nu nu' < 1 / 10 ^ 5 then Some nu'
          else relaxation N update fuel nu')"

text \<open>
  The network mean \<open>\<mu> = (K\<circ>J)\<cdot>\<nu>\<cdot>\<tau>m + j\<cdot>K_ext\<cdot>\<nu>_ext\<cdot>\<tau>m\<close> and variance
  \<open>\<sigma>\<^sup>2 = (K\<circ>J\<^sup>2)\<cdot>\<nu>\<cdot>\<tau>m + j\<^sup>2\<cdot>K_ext\<cdot>\<nu>_ext\<cdot>\<tau>m\<close> of population \<open>i\<close>, the candidate
  rate vector obtained from the filtered stationary-rate function, and the update
  \<open>\<nu> \<leftarrow> \<nu> + 0.05\<cdot>(candidate - \<nu>)\<close>.
\<close>

definition network_mean ::
  "nat \<Rightarrow> real \<Rightarrow> real list list \<Rightarrow> real list list \<Rightarrow> real \<Rightarrow> real \<Rightarrow> real list \<Rightarrow> real list
     \<Rightarrow> nat \<Rightarrow> real" where
  "network_mean N tau_m K J j nu_ext K_ext nu i =
     (\<Sum>k<N. K ! i ! k * J ! i ! k * nu ! k) * tau_m + j * K_ext ! i * nu_ext * tau_m"

definition network_variance ::
  "nat \<Rightarrow> real \<Rightarrow> real list list \<Rightarrow> real list list \<Rightarrow> real \<Rightarrow> real \<Rightarrow> real list \<Rightarrow> real list
     \<Rightarrow> nat \<Rightarrow> real" where
  "network_variance N tau_m K J j nu_ext K_ext nu i =
     (\<Sum>k<N. K ! i ! k * (J ! i ! k) ^ 2 * nu ! k) * tau_m + j ^ 2 * K_ext ! i * nu_ext * tau_m"

definition candidate_rates ::
  "numlib \<Rightarrow> nat \<Rightarrow> real \<Rightarrow> real \<Rightarrow> real \<Rightarrow> real \<Rightarrow> real \<Rightarrow> real list list \<Rightarrow> real list list
     \<Rightarrow> real \<Rightarrow> real \<Rightarrow> real list \<Rightarrow> real list \<Rightarrow> real list option" where
  "candidate_rates L N tau_m tau_s tau_r V_0_rel V_th_rel K J j nu_ext K_ext nu =
     those (map (\<lambda>i. nu0_fb433 L tau_m tau_s tau_r V_th_rel V_0_rel
                        (network_mean N tau_m K J j nu_ext K_ext nu i)
                        (sqrt (network_variance N tau_m K J j nu_ext K_ext nu i))) [0..<N])"

definition relaxation_update ::
  "numlib \<Rightarrow> nat \<Rightarrow> real \<Rightarrow> real \<Rightarrow> real \<Rightarrow> real \<Rightarrow> real \<Rightarrow> real list list \<Rightarrow> real list list
     \<Rightarrow> real \<Rightarrow> real \<Rightarrow> real list \<Rightarrow> real list \<Rightarrow> real list option" where
  "relaxation_update L N tau_m tau_s tau_r V_0_rel V_th_rel K J j nu_ext K_ext nu =
     (case candidate_rates L N tau_m tau_s tau_r V_0_rel V_th_rel K J j nu_ext K_ext nu of
        None \<Rightarrow> None
      | Some candidate \<Rightarrow>
          Some (map (\<lambda>i. nu ! i + 5 / 100 * (candidate ! i - nu ! i)) [0..<N]))"

text \<open>A matrix of \<open>n\<close> rows and \<open>m\<close> columns.\<close>

definition is_matrix :: "nat \<Rightarrow> nat \<Rightarrow> 'a list list \<Rightarrow> bool" where
  "is_matrix n m A \<longleftrightarrow> length A = n \<and> (\<forall>row \<in> set A. length row = m)"

text \<open>
  The effective connectivity \<open>MH(\<omega>) = H(\<omega>) \<odot> J \<odot> DelayMatrix(\<omega>)\<close> of the specification,
  where row \<open>a\<close> of \<open>H(\<omega>)\<close> holds \<open>\<tau>m \<cdot> n_a(\<omega>) / (1 + i\<omega>\<tau>s)\<close> and the transfer function \<open>n\<close>
  is conjugated for negative \<open>\<omega>\<close>.
\<close>

definition effective_connectivity ::
  "real \<Rightarrow> real \<Rightarrow> complex list \<Rightarrow> real list list \<Rightarrow> cmatrix \<Rightarrow> nat \<Rightarrow> real \<Rightarrow> cmatrix" where
  "effective_connectivity tau_m tau_s n J D N omega =
     map (\<lambda>a. map (\<lambda>b. of_real tau_m * (if omega < 0 then cnj (n ! a) else n ! a)
                            / Complex 1 (omega * tau_s)
                          * of_real (J ! a ! b) * D ! a ! b) [0..<N]) [0..<N]"

text \<open>
  The index of the eigenvalue nearest to 1 by strict argmin: a position of the minimum
  with every earlier position strictly larger, that is the first index on ties.
\<close>

definition first_argmin :: "real list \<Rightarrow> nat \<Rightarrow> bool" where
  "first_argmin xs k \<longleftrightarrow>
     k < length xs \<and> (\<forall>j<length xs. xs ! k \<le> xs ! j) \<and> (\<forall>j<k. xs ! k < xs ! j)"

section \<open>A concrete library instance\<close>

text \<open>
  The concrete instances below need closed values for the library record. This instance
  uses the midpoint rule for \<^verbatim>\<open>quad\<close>, a rational value near \<open>\<zeta>(1/2) - 1\<close> for
  \<^verbatim>\<open>zetac\<close>, an odd bounded function for \<^verbatim>\<open>erf\<close>, a kernel \<^verbatim>\<open>pcfu\<close> for which
  \<open>Psi z x = z - x\<close>, and an eigendecomposition and an inverse that are exact on diagonal
  matrices and refuse every other matrix.
\<close>

definition is_diagonal :: "cmatrix \<Rightarrow> bool" where
  "is_diagonal A =
     (\<forall>(a, row) \<in> set (zip [0..<length A] A).
        length row = length A \<and> (\<forall>(b, x) \<in> set (zip [0..<length row] row). a = b \<or> x = 0))"

definition sample_lib :: numlib where
  "sample_lib =
     \<lparr> zetac = (\<lambda>x. - (246 / 100)),
       erf = (\<lambda>x. x / (1 + \<bar>x\<bar>)),
       cerf = (\<lambda>z. z / (1 + of_real (cmod z))),
       quad = (\<lambda>f a b. (b - a) * f ((a + b) / 2)),
       pcfu = (\<lambda>z x. of_real (exp (- (25 / 100 * x ^ 2))) * (z + of_real x)),
       eig = (\<lambda>A. if A \<noteq> [] \<and> is_diagonal A
                   then Inr (diag A, identity (length A)) else Inl LinAlgError),
       inv = (\<lambda>A. if A \<noteq> [] \<and> is_diagonal A \<and> 0 \<notin> set (diag A)
                   then Inr (map (map (\<lambda>x. if x = 0 then 0 else 1 / x)) A)
                   else Inl LinAlgError) \<rparr>"

section \<open>Termination of the bracket searches\<close>

lemma siegert1_lower_small:
  "lower_bound \<le> 1 / 10 ^ 16 \<Longrightarrow> siegert1_lower f lower_bound err_dn = Some lower_bound"
  by (subst siegert1_lower.simps) simp

lemma siegert1_lower_done:
  "err_dn \<le> 1 / 10 ^ 12 \<Longrightarrow> siegert1_lower f lower_bound err_dn = Some lower_bound"
  by (subst siegert1_lower.simps) simp

lemma siegert1_lower_halvings:
  "lower_bound \<le> 2 ^ n / 10 ^ 16 \<Longrightarrow> \<exists>r. siegert1_lower f lower_bound err_dn = Some r"
proof (induction n arbitrary: lower_bound err_dn)
  case 0
  then show ?case by (simp add: siegert1_lower_small)
next
  case (Suc n)
  have half: "lower_bound / 2 \<le> 2 ^ n / 10 ^ 16"
    using Suc.prems by simp
  show ?case
  proof (cases "err_dn > 1 / 10 ^ 12 \<and> lower_bound > 1 / 10 ^ 16")
    case False
    then show ?thesis
      by (auto simp: siegert1_lower.simps [of f lower_bound err_dn])
  next
    case True
    show ?thesis
    proof (cases "f lower_bound > 1 / 10 ^ 12")
      case big: True
      from Suc.IH [OF half] obtain r
        where "siegert1_lower f (lower_bound / 2) (f lower_bound) = Some r" by blast
      with True big show ?thesis
        by (simp add: siegert1_lower.simps [of f lower_bound err_dn])
    next
      case small: False
      then have "siegert1_lower f lower_bound (f lower_bound) = Some lower_bound"
        by (simp add: siegert1_lower_done)
      with True small show ?thesis
        by (simp add: siegert1_lower.simps [of f lower_bound err_dn])
    qed
  qed
qed

lemma siegert1_lower_terminates: "\<exists>r. siegert1_lower f lower_bound err_dn = Some r"
proof -
  obtain n :: nat where "lower_bound * 10 ^ 16 < 2 ^ n"
    using real_arch_pow [of 2 "lower_bound * 10 ^ 16"] by auto
  then have "lower_bound \<le> 2 ^ n / 10 ^ 16"
    by (simp add: pos_le_divide_eq)
  then show ?thesis by (rule siegert1_lower_halvings)
qed

lemma siegert1_upper_done:
  "err_up \<le> 1 / 10 ^ 12 \<Longrightarrow> siegert1_upper f upper_bound err_up = Some upper_bound"
  by (subst siegert1_upper.simps) simp

lemma siegert1_upper_doublings:
  "f (upper_bound * 2 ^ n) \<le> 1 / 10 ^ 12 \<Longrightarrow> \<exists>r. siegert1_upper f upper_bound err_up = Some r"
proof (induction n arbitrary: upper_bound err_up)
  case 0
  then have "siegert1_upper f upper_bound (f upper_bound) = Some upper_bound"
    by (simp add: siegert1_upper_done)
  with 0 show ?case
    by (simp add: siegert1_upper.simps [of f upper_bound err_up])
next
  case (Suc n)
  have "f (upper_bound * 2 * 2 ^ n) \<le> 1 / 10 ^ 12"
    using Suc.prems by (simp add: mult.assoc)
  from Suc.IH [OF this] obtain r
    where step: "siegert1_upper f (upper_bound * 2) (f upper_bound) = Some r" by blast
  show ?case
  proof (cases "f upper_bound > 1 / 10 ^ 12")
    case True
    with step show ?thesis
      by (simp add: siegert1_upper.simps [of f upper_bound err_up])
  next
    case False
    then have "siegert1_upper f upper_bound (f upper_bound) = Some upper_bound"
      by (simp add: siegert1_upper_done)
    with False show ?thesis
      by (simp add: siegert1_upper.simps [of f upper_bound err_up])
  qed
qed

lemma siegert1_integrand_le_inverse:
  assumes "0 < u"
  shows "siegert1_integrand y_th y_r u \<le> 1 / u"
proof -
  have a: "exp (- ((u - y_th) ^ 2)) \<le> 1" by simp
  have b: "1 - exp (2 * (y_r - y_th) * u) \<le> 1" by simp
  have c: "0 \<le> exp (- ((u - y_th) ^ 2))" by simp
  have "exp (- ((u - y_th) ^ 2)) * (1 - exp (2 * (y_r - y_th) * u)) \<le> 1"
  proof (cases "0 \<le> 1 - exp (2 * (y_r - y_th) * u)")
    case True
    then show ?thesis using mult_mono [OF a b _ True] by simp
  next
    case False
    then have neg: "1 - exp (2 * (y_r - y_th) * u) \<le> 0" by linarith
    have "exp (- ((u - y_th) ^ 2)) * (1 - exp (2 * (y_r - y_th) * u)) \<le> 0"
      by (rule mult_nonneg_nonpos [OF c neg])
    then show ?thesis by linarith
  qed
  then show ?thesis
    using assms by (simp add: siegert1_integrand_def divide_right_mono)
qed

lemma siegert1_upper_terminates:
  assumes "0 < y_th"
  shows "\<exists>r. siegert1_upper (siegert1_integrand y_th y_r) y_th err_up = Some r"
proof -
  obtain n :: nat where n: "10 ^ 12 / y_th < 2 ^ n"
    using real_arch_pow [of 2 "10 ^ 12 / y_th"] by auto
  have pos: "0 < y_th * 2 ^ n" using assms by simp
  have big: "10 ^ 12 \<le> y_th * 2 ^ n"
    using n assms by (simp add: pos_divide_less_eq mult.commute)
  have "siegert1_integrand y_th y_r (y_th * 2 ^ n) \<le> 1 / (y_th * 2 ^ n)"
    by (rule siegert1_integrand_le_inverse [OF pos])
  also have "\<dots> \<le> 1 / 10 ^ 12"
    using big by (intro divide_left_mono) simp_all
  finally show ?thesis by (rule siegert1_upper_doublings)
qed

text \<open>
  With a positive normalised threshold distance both bracket searches of \<open>siegert1\<close> end,
  and the function returns through one of its two final assignments.
\<close>

lemma siegert1_returns:
  assumes "0 < (V_th_rel - mu) / sigma"
  shows "\<exists>lower_bound upper_bound.
           siegert1_lower (siegert1_integrand ((V_th_rel - mu) / sigma) ((V_0_rel - mu) / sigma))
             ((V_th_rel - mu) / sigma) 1 = Some lower_bound \<and>
           siegert1_upper (siegert1_integrand ((V_th_rel - mu) / sigma) ((V_0_rel - mu) / sigma))
             ((V_th_rel - mu) / sigma) 1 = Some upper_bound \<and>
           siegert1 L tau_m tau_r V_th_rel V_0_rel mu sigma =
             Some (if (V_th_rel - mu) / sigma \<ge> 20 then 0
                   else 1 / (tau_r + exp (((V_th_rel - mu) / sigma) ^ 2)
                     * quad L (siegert1_integrand ((V_th_rel - mu) / sigma) ((V_0_rel - mu) / sigma))
                         lower_bound upper_bound * tau_m))"
proof -
  obtain lb where lb:
    "siegert1_lower (siegert1_integrand ((V_th_rel - mu) / sigma) ((V_0_rel - mu) / sigma))
       ((V_th_rel - mu) / sigma) 1 = Some lb"
    using siegert1_lower_terminates by blast
  obtain ub where ub:
    "siegert1_upper (siegert1_integrand ((V_th_rel - mu) / sigma) ((V_0_rel - mu) / sigma))
       ((V_th_rel - mu) / sigma) 1 = Some ub"
    using siegert1_upper_terminates [OF assms] by blast
  show ?thesis using lb ub by (simp add: siegert1_def Let_def)
qed

lemma siegert1_zero:
  assumes "(V_th_rel - mu) / sigma \<ge> 20"
  shows "siegert1 L tau_m tau_r V_th_rel V_0_rel mu sigma = Some 0"
proof -
  from assms have "0 < (V_th_rel - mu) / sigma" by linarith
  from siegert1_returns [OF this, of V_0_rel L tau_m tau_r] assms show ?thesis by auto
qed

text \<open>
  A bracket that starts at 0 cannot grow by doubling: when the integrand at 0 exceeds the
  tolerance, the upper search of \<open>siegert1\<close> never ends. This happens for \<open>V_th = \<mu> = 0\<close> and
  a negative reset \<open>V_0\<close>.
\<close>

lemma siegert1_upper_stuck_aux:
  assumes "siegert1_upper f upper_bound err_up = Some r"
  shows "\<not> (upper_bound = 0 \<and> 1 / 10 ^ 12 < f 0 \<and> 1 / 10 ^ 12 < err_up)"
proof (induction rule: siegert1_upper.raw_induct [OF _ assms])
  case (1 upper f upper_bound err_up r)
  show ?case
  proof
    assume a: "upper_bound = 0 \<and> 1 / 10 ^ 12 < f 0 \<and> 1 / 10 ^ 12 < err_up"
    with 1(2) have "upper f (0 * 2) (f 0) = Some r" by simp
    then have "upper f 0 (f 0) = Some r" by simp
    from 1(1) [OF this] a show False by simp
  qed
qed

lemma siegert1_diverges_at_zero_threshold:
  "siegert1 L tau_m tau_r 0 (- 1) 0 1 = None"
proof -
  have f0: "siegert1_integrand 0 (- 1) 0 = 2"
    by (simp add: siegert1_integrand_def)
  have "siegert1_upper (siegert1_integrand 0 (- 1)) 0 1 = None"
  proof (cases "siegert1_upper (siegert1_integrand 0 (- 1)) 0 1")
    case None
    then show ?thesis .
  next
    case (Some r)
    from siegert1_upper_stuck_aux [OF Some] f0 show ?thesis by simp
  qed
  then show ?thesis
    by (simp add: siegert1_def Let_def split: option.splits)
qed

section \<open>Claims about the delta-synapse solver\<close>

text \<open>
  Claim C5. In branch A of the delta-synapse solver (\<open>siegert1\<close>), whenever the normalised
  threshold distance \<open>y_th = (V_th - \<mu>) / \<sigma>\<close> is at least 20, the function returns, and
  the returned rate is exactly 0: both bracket searches end and the overflow guard assigns 0.
\<close>

theorem siegert1_overflow_guard:
  "(V_th_rel - mu) / sigma \<ge> 20 \<Longrightarrow> siegert1 L tau_m tau_r V_th_rel V_0_rel mu sigma = Some 0"
proof -
  assume h: "(V_th_rel - mu) / sigma \<ge> 20"
  then have "0 < (V_th_rel - mu) / sigma" by linarith
  from siegert1_returns [OF this, of V_0_rel L tau_m tau_r] h show ?thesis by auto
qed

theorem siegert1_overflow_guard_witness:
  "(30 - 0) / 1 \<ge> (20 :: real) \<and>
   siegert1 sample_lib (1 / 100) (2 / 1000) 30 0 0 1 = Some 0"
  using siegert1_overflow_guard [of 30 0 1 sample_lib "1 / 100" "2 / 1000" 0] by simp

section \<open>Outcome of the comprehensions of the transfer function\<close>

lemma collect_map_Inr: "collect (map (\<lambda>v. Some (Inr v)) vs) = Some (Inr vs)"
  by (induction vs) simp_all

lemma collect_Inr_D: "collect xs = Some (Inr vs) \<Longrightarrow> xs = map (\<lambda>v. Some (Inr v)) vs"
proof (induction xs arbitrary: vs)
  case Nil
  then show ?case by simp
next
  case (Cons x xs)
  from Cons.prems obtain v ws where x: "x = Some (Inr v)" and ws: "collect xs = Some (Inr ws)"
    and vs: "vs = v # ws"
    by (auto split: option.splits sum.splits)
  from Cons.IH [OF ws] x vs show ?case by simp
qed

lemma call_d_nu_d_mu_seven:
  "call_d_nu_d_mu L [a, b, c, d, e, f, g] = Some (Inl TypeError)"
  by (simp add: call_d_nu_d_mu_def)

lemma transfer_function_1p_shift_raises:
  assumes "\<bar>omega\<bar> < 1 / 10 ^ 15"
  shows "transfer_function_1p_shift L mu sigma tau_m tau_s tau_r V_th_rel V_0_rel omega
           = Some (Inl TypeError)"
  using assms by (simp add: transfer_function_1p_shift_def Let_def call_d_nu_d_mu_seven)

lemma collect_Inr_length: "collect xs = Some (Inr vs) \<Longrightarrow> length vs = length xs"
  by (drule collect_Inr_D) simp

lemma collect_Inr_nth:
  "collect xs = Some (Inr vs) \<Longrightarrow> i < length xs \<Longrightarrow> xs ! i = Some (Inr (vs ! i))"
  by (drule collect_Inr_D) simp

lemma collect_Inr_I:
  assumes "length vs = length xs" and "\<And>i. i < length xs \<Longrightarrow> xs ! i = Some (Inr (vs ! i))"
  shows "collect xs = Some (Inr vs)"
proof -
  have "xs = map (\<lambda>v. Some (Inr v)) vs"
    using assms by (intro nth_equalityI) simp_all
  then show ?thesis by (simp add: collect_map_Inr)
qed

text \<open>One row of the comprehension of \<open>transfer_function\<close>: all populations at one frequency.\<close>

lemma tf_row_Inr_iff:
  "collect (map (\<lambda>i. if i < length mu \<and> i < length sigma
                      then transfer_function_1p_shift L (mu ! i) (sigma ! i) tau_m tau_s tau_r
                             V_th_rel V_0_rel omega
                      else Some (Inl IndexError)) [0..<dimension]) = Some (Inr row)
   \<longleftrightarrow> length row = dimension \<and>
       (\<forall>n<dimension. n < length mu \<and> n < length sigma \<and>
          transfer_function_1p_shift L (mu ! n) (sigma ! n) tau_m tau_s tau_r V_th_rel V_0_rel omega
            = Some (Inr (row ! n)))"
  (is "collect ?xs = _ \<longleftrightarrow> ?r")
proof
  assume c: "collect ?xs = Some (Inr row)"
  have len: "length row = dimension"
    using collect_Inr_length [OF c] by simp
  have nth: "(if n < length mu \<and> n < length sigma
              then transfer_function_1p_shift L (mu ! n) (sigma ! n) tau_m tau_s tau_r
                     V_th_rel V_0_rel omega
              else Some (Inl IndexError)) = Some (Inr (row ! n))" if "n < dimension" for n
    using collect_Inr_nth [OF c, of n] that by (simp cong: if_cong)
  show ?r
  proof (intro conjI allI impI)
    show "length row = dimension" by (rule len)
  next
    fix n assume "n < dimension"
    from nth [OF this] show "n < length mu" by (simp split: if_splits)
  next
    fix n assume "n < dimension"
    from nth [OF this] show "n < length sigma" by (simp split: if_splits)
  next
    fix n assume "n < dimension"
    from nth [OF this]
    show "transfer_function_1p_shift L (mu ! n) (sigma ! n) tau_m tau_s tau_r V_th_rel V_0_rel
            omega = Some (Inr (row ! n))"
      by (simp split: if_splits)
  qed
next
  assume r: ?r
  show "collect ?xs = Some (Inr row)"
    by (rule collect_Inr_I) (use r in auto)
qed

lemma transfer_function_Inr_iff:
  "transfer_function L mu sigma tau_m tau_s tau_r V_th_rel V_0_rel dimension omegas = Some (Inr T)
   \<longleftrightarrow> omegas \<noteq> [] \<and> 0 < dimension \<and> length T = length omegas \<and>
       (\<forall>m<length omegas. length (T ! m) = dimension \<and>
          (\<forall>n<dimension. n < length mu \<and> n < length sigma \<and>
             transfer_function_1p_shift L (mu ! n) (sigma ! n) tau_m tau_s tau_r V_th_rel V_0_rel
               (omegas ! m) = Some (Inr (T ! m ! n))))"
  (is "?l \<longleftrightarrow> ?r")
proof
  let ?rows = "map (\<lambda>omega. collect (map (\<lambda>i.
                 if i < length mu \<and> i < length sigma
                 then transfer_function_1p_shift L (mu ! i) (sigma ! i) tau_m tau_s tau_r
                        V_th_rel V_0_rel omega
                 else Some (Inl IndexError)) [0..<dimension])) omegas"
  {
    assume ?l
    then have c: "collect ?rows = Some (Inr T)" and ne: "T \<noteq> []" "hd T \<noteq> []"
      by (auto simp: transfer_function_def split: option.splits sum.splits list.splits)
    have len: "length T = length omegas"
      using collect_Inr_length [OF c] by simp
    have rows: "\<And>m. m < length omegas \<Longrightarrow> ?rows ! m = Some (Inr (T ! m))"
      using collect_Inr_nth [OF c] by simp
    have each: "\<forall>m<length omegas. length (T ! m) = dimension \<and>
          (\<forall>n<dimension. n < length mu \<and> n < length sigma \<and>
             transfer_function_1p_shift L (mu ! n) (sigma ! n) tau_m tau_s tau_r V_th_rel V_0_rel
               (omegas ! m) = Some (Inr (T ! m ! n)))"
      using rows by (simp add: tf_row_Inr_iff)
    have "omegas \<noteq> []" using ne len by auto
    moreover have "0 < dimension"
    proof -
      have "0 < length omegas" using \<open>omegas \<noteq> []\<close> by simp
      with each have "length (T ! 0) = dimension" by blast
      with ne show ?thesis by (cases T) auto
    qed
    ultimately show ?r using len each by blast
  }
  {
    assume r: ?r
    have "collect ?rows = Some (Inr T)"
    proof (rule collect_Inr_I)
      show "length T = length ?rows" using r by simp
    next
      fix m assume "m < length ?rows"
      then have m: "m < length omegas" by simp
      with r show "?rows ! m = Some (Inr (T ! m))"
        by (simp add: tf_row_Inr_iff)
    qed
    moreover from r have "T \<noteq> []" by auto
    moreover from r have "length (T ! 0) = dimension" "0 < dimension" by auto
    then have "hd T \<noteq> []" using \<open>T \<noteq> []\<close> by (cases T) auto
    ultimately show ?l
      by (auto simp: transfer_function_def split: list.splits)
  }
qed


lemma nu_0_zero:
  assumes "mu \<le> V_th_rel + (95 / 100 * \<bar>V_th_rel\<bar> - \<bar>V_th_rel\<bar>)"
    and "(V_th_rel - mu) / sigma \<ge> 20"
  shows "nu_0 L tau_m tau_r V_th_rel V_0_rel mu sigma = Some 0"
  using assms by (simp add: nu_0_def siegert1_zero)

section \<open>Claims about the transfer function\<close>

text \<open>
  The layout of the result. \<open>transfer_function\<close> returns a matrix \<open>T\<close> exactly when the
  frequency vector is not empty, \<open>dimension\<close> is positive and not larger than the lengths of
  the mean and standard-deviation vectors, and every evaluation of the shift variant
  \<open>transfer_function_1p_shift\<close> returns a value; \<open>T\<close> then has one row per frequency and
  one column per population (shape \<open>M \<times> N\<close>), and the entry in row \<open>m\<close> and column \<open>n\<close> is
  the value of the shift variant for population \<open>n\<close> at frequency \<open>m\<close>.
\<close>

lemma transfer_function_layout:
  "transfer_function L mu sigma tau_m tau_s tau_r V_th_rel V_0_rel dimension omegas = Some (Inr T)
   \<longleftrightarrow> omegas \<noteq> [] \<and> 0 < dimension \<and> dimension \<le> length mu \<and> dimension \<le> length sigma \<and>
       length T = length omegas \<and>
       (\<forall>m<length omegas. length (T ! m) = dimension \<and>
          (\<forall>n<dimension.
             transfer_function_1p_shift L (mu ! n) (sigma ! n) tau_m tau_s tau_r V_th_rel V_0_rel
               (omegas ! m) = Some (Inr (T ! m ! n))))"
  (is "?l \<longleftrightarrow> ?r")
proof
  assume ?l
  then have a: "omegas \<noteq> []" "0 < dimension" "length T = length omegas"
    and b: "\<forall>m<length omegas. length (T ! m) = dimension \<and>
          (\<forall>n<dimension. n < length mu \<and> n < length sigma \<and>
             transfer_function_1p_shift L (mu ! n) (sigma ! n) tau_m tau_s tau_r V_th_rel V_0_rel
               (omegas ! m) = Some (Inr (T ! m ! n)))"
    by (simp_all add: transfer_function_Inr_iff)
  from a(1) have m0: "0 < length omegas" by simp
  have "n < length mu \<and> n < length sigma" if "n < dimension" for n
    using b m0 that by blast
  then have "dimension \<le> length mu" "dimension \<le> length sigma"
    by (meson not_less order_refl less_le_trans)+
  with a b show ?r by blast
next
  assume r: ?r
  then have "\<forall>m<length omegas. length (T ! m) = dimension \<and>
          (\<forall>n<dimension. n < length mu \<and> n < length sigma \<and>
             transfer_function_1p_shift L (mu ! n) (sigma ! n) tau_m tau_s tau_r V_th_rel V_0_rel
               (omegas ! m) = Some (Inr (T ! m ! n)))"
    by (meson less_le_trans)
  with r show ?l by (simp add: transfer_function_Inr_iff)
qed

text \<open>
  Claim C10. For every input whose frequency satisfies \<open>|\<omega>| < 1e-15\<close>,
  \<open>transfer_function_1p_shift\<close> raises TypeError: its zero-frequency branch calls
  \<open>d_nu_d_mu\<close> with seven positional arguments, and \<open>d_nu_d_mu\<close> has six parameters.
  Consequently the batch \<open>transfer_function\<close> returns no matrix when the frequency grid
  contains \<open>\<omega> = 0\<close>, and it raises this TypeError when the grid starts with \<open>\<omega> = 0\<close>
  and there is at least one population.
\<close>

theorem transfer_function_zero_frequency_fails:
  "(\<bar>omega\<bar> < 1 / 10 ^ 15 \<longrightarrow>
      transfer_function_1p_shift L mu sigma tau_m tau_s tau_r V_th_rel V_0_rel omega
        = Some (Inl TypeError)) \<and>
   (0 \<in> set omegas \<longrightarrow>
      (\<forall>T. transfer_function L mus sigmas tau_m tau_s tau_r V_th_rel V_0_rel dimension omegas
             \<noteq> Some (Inr T))) \<and>
   (0 < dimension \<and> mus \<noteq> [] \<and> sigmas \<noteq> [] \<longrightarrow>
      transfer_function L mus sigmas tau_m tau_s tau_r V_th_rel V_0_rel dimension (0 # omegas)
        = Some (Inl TypeError))"
proof (intro conjI impI allI)
  assume "\<bar>omega\<bar> < 1 / 10 ^ 15"
  then show "transfer_function_1p_shift L mu sigma tau_m tau_s tau_r V_th_rel V_0_rel omega
               = Some (Inl TypeError)"
    by (rule transfer_function_1p_shift_raises)
next
  fix T
  assume zero: "0 \<in> set omegas"
  show "transfer_function L mus sigmas tau_m tau_s tau_r V_th_rel V_0_rel dimension omegas
          \<noteq> Some (Inr T)"
  proof
    assume "transfer_function L mus sigmas tau_m tau_s tau_r V_th_rel V_0_rel dimension omegas
              = Some (Inr T)"
    then have dim: "0 < dimension"
      and rows: "\<forall>m<length omegas. \<forall>n<dimension.
             transfer_function_1p_shift L (mus ! n) (sigmas ! n) tau_m tau_s tau_r V_th_rel
               V_0_rel (omegas ! m) = Some (Inr (T ! m ! n))"
      by (simp_all add: transfer_function_Inr_iff)
    from zero obtain m where m: "m < length omegas" "omegas ! m = 0"
      by (auto simp: in_set_conv_nth)
    with rows dim
    have "transfer_function_1p_shift L (mus ! 0) (sigmas ! 0) tau_m tau_s tau_r V_th_rel
            V_0_rel 0 = Some (Inr (T ! m ! 0))"
      by metis
    then show False
      by (simp add: transfer_function_1p_shift_raises)
  qed
next
  assume "0 < dimension \<and> mus \<noteq> [] \<and> sigmas \<noteq> []"
  then obtain k where k: "dimension = Suc k" and ne: "mus \<noteq> []" "sigmas \<noteq> []"
    by (cases dimension) auto
  have "[0..<Suc k] = 0 # [1..<Suc k]"
    by (simp add: upt_rec)
  with ne show "transfer_function L mus sigmas tau_m tau_s tau_r V_th_rel V_0_rel dimension
                  (0 # omegas) = Some (Inl TypeError)"
    unfolding transfer_function_def k
    by (simp add: transfer_function_1p_shift_raises)
qed

theorem transfer_function_zero_frequency_fails_witness:
  "transfer_function_1p_shift sample_lib 0 1 (1 / 100) (1 / 2000) (2 / 1000) 30 0 0
     = Some (Inl TypeError) \<and>
   (\<forall>T. transfer_function sample_lib [0] [1] (1 / 100) (1 / 2000) (2 / 1000) 30 0 1 [1, 0]
          \<noteq> Some (Inr T)) \<and>
   transfer_function sample_lib [0] [1] (1 / 100) (1 / 2000) (2 / 1000) 30 0 1 [0, 1, 0]
     = Some (Inl TypeError)"
  using transfer_function_zero_frequency_fails
          [of 0 sample_lib 0 1 "1 / 100" "1 / 2000" "2 / 1000" 30 0 "[1, 0]" "[0]" "[1]" 1]
  by simp

section \<open>Range of the brackets and sign of the integral\<close>

lemma siegert1_lower_range_aux:
  assumes "siegert1_lower f lower_bound err_dn = Some r"
  shows "0 < lower_bound \<longrightarrow> 0 < r \<and> r \<le> lower_bound"
proof (induction rule: siegert1_lower.raw_induct [OF _ assms])
  case (1 lower f lower_bound err_dn r)
  show ?case
  proof
    assume pos: "0 < lower_bound"
    show "0 < r \<and> r \<le> lower_bound"
    proof (cases "err_dn > 1 / 10 ^ 12 \<and> lower_bound > 1 / 10 ^ 16")
      case False
      with 1(2) pos show ?thesis by auto
    next
      case True
      show ?thesis
      proof (cases "f lower_bound > 1 / 10 ^ 12")
        case big: True
        with True 1(2) have "lower f (lower_bound / 2) (f lower_bound) = Some r" by simp
        from 1(1) [OF this] pos show ?thesis by simp
      next
        case small: False
        with True 1(2) have "lower f lower_bound (f lower_bound) = Some r" by simp
        from 1(1) [OF this] pos show ?thesis by simp
      qed
    qed
  qed
qed

lemma siegert1_upper_range_aux:
  assumes "siegert1_upper f upper_bound err_up = Some r"
  shows "0 < upper_bound \<longrightarrow> upper_bound \<le> r"
proof (induction rule: siegert1_upper.raw_induct [OF _ assms])
  case (1 upper f upper_bound err_up r)
  show ?case
  proof
    assume pos: "0 < upper_bound"
    show "upper_bound \<le> r"
    proof (cases "err_up > 1 / 10 ^ 12")
      case False
      with 1(2) show ?thesis by auto
    next
      case True
      show ?thesis
      proof (cases "f upper_bound > 1 / 10 ^ 12")
        case big: True
        with True 1(2) have "upper f (upper_bound * 2) (f upper_bound) = Some r" by simp
        from 1(1) [OF this] pos show ?thesis by simp
      next
        case small: False
        with True 1(2) have "upper f upper_bound (f upper_bound) = Some r" by simp
        from 1(1) [OF this] pos show ?thesis by simp
      qed
    qed
  qed
qed

lemma siegert1_integrand_nonneg:
  assumes "y_r \<le> y_th" and "0 < u"
  shows "0 \<le> siegert1_integrand y_th y_r u"
proof -
  have "2 * (y_r - y_th) * u \<le> 0"
    using assms by (simp add: mult_le_0_iff)
  then have "0 \<le> 1 - exp (2 * (y_r - y_th) * u)" by simp
  then have "0 \<le> exp (- ((u - y_th) ^ 2)) * (1 - exp (2 * (y_r - y_th) * u))"
    by (intro mult_nonneg_nonneg) simp_all
  then show ?thesis
    using assms(2) by (simp add: siegert1_integrand_def)
qed

text \<open>The integral factor of branch A is non-negative under a sign-preserving quadrature.\<close>

lemma siegert1_integral_nonneg:
  assumes "quad_nonneg L" and "0 < (V_th_rel - mu) / sigma"
    and "(V_0_rel - mu) / sigma \<le> (V_th_rel - mu) / sigma"
  shows "\<exists>I. siegert1_integral L V_th_rel V_0_rel mu sigma = Some I \<and> 0 \<le> I"
proof -
  let ?y = "(V_th_rel - mu) / sigma" and ?yr = "(V_0_rel - mu) / sigma"
  let ?f = "siegert1_integrand ?y ?yr"
  from siegert1_returns [OF assms(2), of V_0_rel L 0 0]
  obtain lb ub where lb: "siegert1_lower ?f ?y 1 = Some lb" and ub: "siegert1_upper ?f ?y 1 = Some ub"
    by blast
  have l: "0 < lb" "lb \<le> ?y" using siegert1_lower_range_aux [OF lb] assms(2) by simp_all
  have u: "?y \<le> ub" using siegert1_upper_range_aux [OF ub] assms(2) by simp
  have "0 \<le> quad L ?f lb ub"
  proof -
    have "\<forall>v. lb \<le> v \<and> v \<le> ub \<longrightarrow> 0 \<le> ?f v"
      using l(1) siegert1_integrand_nonneg [OF assms(3)] by auto
    moreover have "lb \<le> ub" using l u by linarith
    ultimately show ?thesis using assms(1) unfolding quad_nonneg_def by blast
  qed
  then have "0 \<le> exp (?y ^ 2) * quad L ?f lb ub" by simp
  with lb ub show ?thesis by (simp add: siegert1_integral_def Let_def)
qed

lemma siegert1_eq_integral:
  "siegert1 L tau_m tau_r V_th_rel V_0_rel mu sigma =
     map_option (\<lambda>I. if (V_th_rel - mu) / sigma \<ge> 20 then 0 else 1 / (tau_r + tau_m * I))
       (siegert1_integral L V_th_rel V_0_rel mu sigma)"
  by (simp add: siegert1_def siegert1_integral_def Let_def mult.commute
           split: option.splits)

lemma siegert2_eq_integral:
  "siegert2 L tau_m tau_r V_th_rel V_0_rel mu sigma =
     map_option (\<lambda>I. 1 / (tau_r + tau_m * I)) (siegert2_integral L V_th_rel V_0_rel mu sigma)"
  by (simp add: siegert2_def siegert2_integral_def Let_def mult.commute
           split: option.splits)


lemma siegert2_upper_done:
  "err \<le> 1 / 10 ^ 12 \<Longrightarrow> siegert2_upper f upper_bound err = Some upper_bound"
  by (subst siegert2_upper.simps) simp

lemma siegert2_upper_doublings:
  "f (upper_bound * 2 ^ n) \<le> 1 / 10 ^ 12 \<Longrightarrow> \<exists>r. siegert2_upper f upper_bound err = Some r"
proof (induction n arbitrary: upper_bound err)
  case 0
  then have "siegert2_upper f (upper_bound * 2) (f upper_bound) = Some (upper_bound * 2)"
    by (simp add: siegert2_upper_done)
  then show ?case
    by (simp add: siegert2_upper.simps [of f upper_bound err])
next
  case (Suc n)
  have "f (upper_bound * 2 * 2 ^ n) \<le> 1 / 10 ^ 12"
    using Suc.prems by (simp add: mult.assoc)
  from Suc.IH [OF this] obtain r
    where "siegert2_upper f (upper_bound * 2) (f upper_bound) = Some r" by blast
  then show ?case
    by (simp add: siegert2_upper.simps [of f upper_bound err])
qed

lemma siegert2_integrand_le_inverse:
  assumes "0 < u" and "2 * y_th \<le> u"
  shows "siegert2_integrand y_th y_r u \<le> 1 / u"
proof -
  have "2 * y_th * u - u ^ 2 = u * (2 * y_th - u)"
    by (simp add: power2_eq_square algebra_simps)
  also have "\<dots> \<le> 0"
    using assms by (simp add: mult_le_0_iff)
  finally have "exp (2 * y_th * u - u ^ 2) \<le> 1" by simp
  moreover have "0 \<le> exp (2 * y_r * u - u ^ 2)" by simp
  ultimately have "exp (2 * y_th * u - u ^ 2) - exp (2 * y_r * u - u ^ 2) \<le> 1" by linarith
  then show ?thesis
    using assms(1) by (simp add: siegert2_integrand_def divide_right_mono)
qed

lemma siegert2_upper_terminates:
  "\<exists>r. siegert2_upper (siegert2_integrand y_th y_r) 1 err = Some r"
proof -
  obtain n :: nat where n: "max (2 * y_th) (10 ^ 12) < 2 ^ n"
    using real_arch_pow [of 2 "max (2 * y_th) (10 ^ 12)"] by auto
  have pos: "(0 :: real) < 1 * 2 ^ n" by simp
  have "siegert2_integrand y_th y_r (1 * 2 ^ n) \<le> 1 / (1 * 2 ^ n)"
    using n by (intro siegert2_integrand_le_inverse [OF pos]) simp
  also have "\<dots> \<le> 1 / 10 ^ 12"
    using n by (intro divide_left_mono) simp_all
  finally show ?thesis by (rule siegert2_upper_doublings)
qed

lemma siegert2_integral_returns: "\<exists>I. siegert2_integral L V_th_rel V_0_rel mu sigma = Some I"
proof -
  obtain ub where
    "siegert2_upper (siegert2_integrand ((V_th_rel - mu) / sigma) ((V_0_rel - mu) / sigma)) 1 1
       = Some ub"
    using siegert2_upper_terminates by blast
  then show ?thesis by (simp add: siegert2_integral_def Let_def)
qed

lemma siegert1_integral_returns:
  assumes "0 < (V_th_rel - mu) / sigma"
  shows "\<exists>I. siegert1_integral L V_th_rel V_0_rel mu sigma = Some I"
  using siegert1_returns [OF assms, of V_0_rel L 0 0]
  by (auto simp: siegert1_integral_def Let_def)

lemma branch_cut: "V + (95 / 100 * \<bar>V\<bar> - \<bar>V\<bar>) = V - 5 / 100 * \<bar>V :: real\<bar>"
  by simp

lemma quad_sample: "quad sample_lib f a b = (b - a) * f ((a + b) / 2)"
  by (simp add: sample_lib_def)

lemma quad_nonneg_sample: "quad_nonneg sample_lib"
  unfolding quad_nonneg_def quad_sample
proof (intro allI impI, elim conjE)
  fix f :: "real \<Rightarrow> real" and a b :: real
  assume ab: "a \<le> b" and f: "\<forall>u. a \<le> u \<and> u \<le> b \<longrightarrow> 0 \<le> f u"
  have "a \<le> (a + b) / 2" "(a + b) / 2 \<le> b" using ab by simp_all
  with f have "0 \<le> f ((a + b) / 2)" by blast
  with ab show "0 \<le> (b - a) * f ((a + b) / 2)" by simp
qed

section \<open>Claims about the branches of the delta-synapse solver\<close>

text \<open>
  Claim C4, as stated, lets both branches return \<open>1 / (\<tau>r + \<tau>m \<cdot> integral)\<close> for every
  input. With \<open>V_th = 20\<close>, \<open>\<mu> = 0\<close> and \<open>\<sigma> = 1\<close> branch A is selected and returns 0, which is
  not the reciprocal: the integral factor is defined and the reciprocal is not 0.
\<close>

theorem nu_0_reciprocal_counterexample:
  "nu_0 sample_lib (1 / 100) (2 / 1000) 20 0 0 1 = Some 0 \<and>
   map_option (\<lambda>I. 1 / (2 / 1000 + 1 / 100 * I)) (siegert1_integral sample_lib 20 0 0 1)
     \<noteq> Some 0"
proof
  show "nu_0 sample_lib (1 / 100) (2 / 1000) 20 0 0 1 = Some 0"
    by (rule nu_0_zero) simp_all
next
  obtain I where I: "siegert1_integral sample_lib 20 0 0 1 = Some I" "0 \<le> I"
    using siegert1_integral_nonneg [OF quad_nonneg_sample, of 20 0 1 0] by auto
  then have "0 < 2 / 1000 + 1 / 100 * I" by simp
  then have "1 / (2 / 1000 + 1 / 100 * I) \<noteq> 0" by simp
  with I show "map_option (\<lambda>I. 1 / (2 / 1000 + 1 / 100 * I))
                 (siegert1_integral sample_lib 20 0 0 1) \<noteq> Some 0"
    by simp
qed

text \<open>
  Claim C4, amended. For every input \<open>nu_0\<close> selects branch A (\<open>siegert1\<close>) exactly when
  \<open>\<mu>\<close> is at or below the branch cut \<open>V_th - 0.05 \<cdot> |V_th|\<close>, and branch B (\<open>siegert2\<close>) when
  \<open>\<mu>\<close> is above it. Wherever its bracket searches end, branch A returns 0 when the
  normalised threshold distance \<open>y_th\<close> is at least 20 and \<open>1 / (\<tau>r + \<tau>m \<cdot> integral)\<close>
  otherwise; branch B returns \<open>1 / (\<tau>r + \<tau>m \<cdot> integral)\<close>. Branch B always returns, and
  branch A returns whenever \<open>y_th\<close> is positive.
\<close>

theorem nu_0_branches:
  "nu_0 L tau_m tau_r V_th_rel V_0_rel mu sigma =
     (if mu \<le> V_th_rel - 5 / 100 * \<bar>V_th_rel\<bar>
      then siegert1 L tau_m tau_r V_th_rel V_0_rel mu sigma
      else siegert2 L tau_m tau_r V_th_rel V_0_rel mu sigma) \<and>
   siegert1 L tau_m tau_r V_th_rel V_0_rel mu sigma =
     map_option (\<lambda>I. if (V_th_rel - mu) / sigma \<ge> 20 then 0 else 1 / (tau_r + tau_m * I))
       (siegert1_integral L V_th_rel V_0_rel mu sigma) \<and>
   siegert2 L tau_m tau_r V_th_rel V_0_rel mu sigma =
     map_option (\<lambda>I. 1 / (tau_r + tau_m * I)) (siegert2_integral L V_th_rel V_0_rel mu sigma) \<and>
   siegert2 L tau_m tau_r V_th_rel V_0_rel mu sigma \<noteq> None \<and>
   (0 < (V_th_rel - mu) / sigma \<longrightarrow> siegert1 L tau_m tau_r V_th_rel V_0_rel mu sigma \<noteq> None)"
proof (intro conjI impI)
  show "nu_0 L tau_m tau_r V_th_rel V_0_rel mu sigma =
     (if mu \<le> V_th_rel - 5 / 100 * \<bar>V_th_rel\<bar>
      then siegert1 L tau_m tau_r V_th_rel V_0_rel mu sigma
      else siegert2 L tau_m tau_r V_th_rel V_0_rel mu sigma)"
    unfolding nu_0_def branch_cut by (rule refl)
next
  show "siegert1 L tau_m tau_r V_th_rel V_0_rel mu sigma =
     map_option (\<lambda>I. if (V_th_rel - mu) / sigma \<ge> 20 then 0 else 1 / (tau_r + tau_m * I))
       (siegert1_integral L V_th_rel V_0_rel mu sigma)"
    by (rule siegert1_eq_integral)
next
  show "siegert2 L tau_m tau_r V_th_rel V_0_rel mu sigma =
     map_option (\<lambda>I. 1 / (tau_r + tau_m * I)) (siegert2_integral L V_th_rel V_0_rel mu sigma)"
    by (rule siegert2_eq_integral)
next
  show "siegert2 L tau_m tau_r V_th_rel V_0_rel mu sigma \<noteq> None"
    using siegert2_integral_returns [of L V_th_rel V_0_rel mu sigma]
    by (auto simp: siegert2_eq_integral)
next
  assume "0 < (V_th_rel - mu) / sigma"
  from siegert1_integral_returns [OF this, of L V_0_rel]
  show "siegert1 L tau_m tau_r V_th_rel V_0_rel mu sigma \<noteq> None"
    by (auto simp: siegert1_eq_integral)
qed

theorem nu_0_branches_witness:
  "0 < (15 - 0) / (5 :: real) \<and>
   nu_0 sample_lib (1 / 100) (2 / 1000) 15 0 0 5 = siegert1 sample_lib (1 / 100) (2 / 1000) 15 0 0 5 \<and>
   siegert1 sample_lib (1 / 100) (2 / 1000) 15 0 0 5 \<noteq> None \<and>
   nu_0 sample_lib (1 / 100) (2 / 1000) 15 0 16 5 = siegert2 sample_lib (1 / 100) (2 / 1000) 15 0 16 5 \<and>
   siegert2 sample_lib (1 / 100) (2 / 1000) 15 0 16 5 \<noteq> None"
proof -
  note below = nu_0_branches [of sample_lib "1 / 100" "2 / 1000" 15 0 0 5]
  note above = nu_0_branches [of sample_lib "1 / 100" "2 / 1000" 15 0 16 5]
  have pos: "0 < (15 - 0) / (5 :: real)" by simp
  have "nu_0 sample_lib (1 / 100) (2 / 1000) 15 0 0 5
          = siegert1 sample_lib (1 / 100) (2 / 1000) 15 0 0 5"
    by (subst conjunct1 [OF below]) simp
  moreover have "siegert1 sample_lib (1 / 100) (2 / 1000) 15 0 0 5 \<noteq> None"
    using below pos by blast
  moreover have "nu_0 sample_lib (1 / 100) (2 / 1000) 15 0 16 5
          = siegert2 sample_lib (1 / 100) (2 / 1000) 15 0 16 5"
    by (subst conjunct1 [OF above]) simp
  moreover have "siegert2 sample_lib (1 / 100) (2 / 1000) 15 0 16 5 \<noteq> None"
    using above by blast
  ultimately show ?thesis using pos by blast
qed

section \<open>Claims about the dependence on the refractory time\<close>

lemma reciprocal_rate_decreasing:
  fixes I :: real
  assumes "0 \<le> tau_m * I" and "0 \<le> tau_r1" and "tau_r1 < tau_r2"
    and "0 < tau_r1 \<or> 0 < tau_m * I"
  shows "0 < 1 / (tau_r2 + tau_m * I) \<and> 1 / (tau_r2 + tau_m * I) < 1 / (tau_r1 + tau_m * I)"
proof -
  have "0 < tau_r1 + tau_m * I" "tau_r1 + tau_m * I < tau_r2 + tau_m * I"
    using assms by linarith+
  then show ?thesis by (simp add: frac_less2)
qed

text \<open>
  Below the overflow guard, branch A returns the reciprocal \<open>1 / (\<tau>r + \<tau>m \<cdot> I)\<close> for every
  membrane and refractory time, with one integral factor \<open>I \<ge> 0\<close>.
\<close>

lemma nu_0_below_guard:
  assumes "quad_nonneg L" and "0 < sigma" and "V_0_rel \<le> V_th_rel" and "mu < V_th_rel"
    and "mu \<le> V_th_rel - 5 / 100 * \<bar>V_th_rel\<bar>" and "(V_th_rel - mu) / sigma < 20"
  shows "\<exists>I. siegert1_integral L V_th_rel V_0_rel mu sigma = Some I \<and> 0 \<le> I \<and>
             (\<forall>tau_m tau_r. nu_0 L tau_m tau_r V_th_rel V_0_rel mu sigma
                              = Some (1 / (tau_r + tau_m * I)))"
proof -
  have y: "0 < (V_th_rel - mu) / sigma" using assms(2,4) by simp
  have yr: "(V_0_rel - mu) / sigma \<le> (V_th_rel - mu) / sigma"
    using assms(2,3) by (simp add: divide_right_mono)
  obtain I where I: "siegert1_integral L V_th_rel V_0_rel mu sigma = Some I" "0 \<le> I"
    using siegert1_integral_nonneg [OF assms(1) y yr] by blast
  have A: "mu \<le> V_th_rel + (95 / 100 * \<bar>V_th_rel\<bar> - \<bar>V_th_rel\<bar>)"
    using assms(5) by (simp only: branch_cut)
  have "nu_0 L tau_m tau_r V_th_rel V_0_rel mu sigma = Some (1 / (tau_r + tau_m * I))"
    for tau_m tau_r
    using A I(1) assms(6) by (simp add: nu_0_def siegert1_eq_integral)
  with I show ?thesis by blast
qed

text \<open>
  Claim C6, as stated, fails where the overflow guard of branch A applies: with \<open>V_th = 20\<close>,
  \<open>\<mu> = 0\<close> and \<open>\<sigma> = 1\<close> the rate is 0 for the refractory time 1 ms and for 2 ms, neither
  positive nor decreasing.
\<close>

theorem nu_0_refractory_counterexample:
  "nu_0 sample_lib (1 / 100) (1 / 1000) 20 0 0 1 = Some 0 \<and>
   nu_0 sample_lib (1 / 100) (2 / 1000) 20 0 0 1 = Some 0"
  by (simp add: nu_0_zero)

text \<open>
  Claim C6, amended. Whenever \<open>\<mu>\<close> is at or below the branch cut \<open>V_th - 0.05 \<cdot> |V_th|\<close> and the
  normalised threshold distance \<open>y_th = (V_th - \<mu>) / \<sigma>\<close> is at least 20, the delta-synapse
  rate \<open>nu_0\<close> is 0 for every refractory time. Let the quadrature be sign-preserving,
  \<open>\<sigma> > 0\<close>, \<open>V_0 \<le> V_th\<close>, \<open>\<tau>m \<ge> 0\<close>, and let \<open>\<mu>\<close> be below \<open>V_th\<close> and at or below the branch cut
  with \<open>y_th < 20\<close>. Then for refractory times \<open>0 \<le> \<tau>r1 < \<tau>r2\<close>, where \<open>\<tau>r1 = 0\<close> is admitted
  when the product of \<open>\<tau>m\<close> and the integral factor is positive, \<open>nu_0\<close> returns for both,
  the rate is strictly positive, and the rate for \<open>\<tau>r2\<close> is not larger than the rate for
  \<open>\<tau>r1\<close>. Over the real numbers the rate for \<open>\<tau>r2\<close> is smaller
  (lemma \<open>reciprocal_rate_decreasing\<close>); the statement keeps to what also holds for the
  rounded sum \<open>\<tau>r + \<tau>m \<cdot> integral\<close> of the source, in which a large second summand absorbs
  \<open>\<tau>r\<close>.
\<close>

theorem nu_0_decreasing_in_tau_r:
  "(mu \<le> V_th_rel - 5 / 100 * \<bar>V_th_rel\<bar> \<and> 20 \<le> (V_th_rel - mu) / sigma \<longrightarrow>
      nu_0 L tau_m tau_r V_th_rel V_0_rel mu sigma = Some 0) \<and>
   (quad_nonneg L \<and> 0 < sigma \<and> V_0_rel \<le> V_th_rel \<and> 0 \<le> tau_m \<and> mu < V_th_rel \<and>
    mu \<le> V_th_rel - 5 / 100 * \<bar>V_th_rel\<bar> \<and> (V_th_rel - mu) / sigma < 20 \<and>
    0 \<le> tau_r1 \<and> tau_r1 < tau_r2 \<and>
    (0 < tau_r1 \<or> (\<exists>I. siegert1_integral L V_th_rel V_0_rel mu sigma = Some I \<and> 0 < tau_m * I)) \<longrightarrow>
      (\<exists>r1 r2. nu_0 L tau_m tau_r1 V_th_rel V_0_rel mu sigma = Some r1 \<and>
                nu_0 L tau_m tau_r2 V_th_rel V_0_rel mu sigma = Some r2 \<and>
                0 < r2 \<and> r2 \<le> r1))"
proof (intro conjI impI)
  assume "mu \<le> V_th_rel - 5 / 100 * \<bar>V_th_rel\<bar> \<and> 20 \<le> (V_th_rel - mu) / sigma"
  then have "mu \<le> V_th_rel + (95 / 100 * \<bar>V_th_rel\<bar> - \<bar>V_th_rel\<bar>)"
    and "20 \<le> (V_th_rel - mu) / sigma"
    by (simp_all only: branch_cut)
  then show "nu_0 L tau_m tau_r V_th_rel V_0_rel mu sigma = Some 0"
    by (rule nu_0_zero)
next
  assume a: "quad_nonneg L \<and> 0 < sigma \<and> V_0_rel \<le> V_th_rel \<and> 0 \<le> tau_m \<and> mu < V_th_rel \<and>
    mu \<le> V_th_rel - 5 / 100 * \<bar>V_th_rel\<bar> \<and> (V_th_rel - mu) / sigma < 20 \<and>
    0 \<le> tau_r1 \<and> tau_r1 < tau_r2 \<and>
    (0 < tau_r1 \<or> (\<exists>I. siegert1_integral L V_th_rel V_0_rel mu sigma = Some I \<and> 0 < tau_m * I))"
  then have "quad_nonneg L" "0 < sigma" "V_0_rel \<le> V_th_rel" "mu < V_th_rel"
    "mu \<le> V_th_rel - 5 / 100 * \<bar>V_th_rel\<bar>" "(V_th_rel - mu) / sigma < 20"
    by simp_all
  from nu_0_below_guard [OF this]
  obtain I where I: "siegert1_integral L V_th_rel V_0_rel mu sigma = Some I" "0 \<le> I"
    and r: "\<And>tau_r. nu_0 L tau_m tau_r V_th_rel V_0_rel mu sigma = Some (1 / (tau_r + tau_m * I))"
    by blast
  from a I(2) have "0 \<le> tau_m * I" by simp
  moreover from a have "0 \<le> tau_r1" "tau_r1 < tau_r2" by simp_all
  moreover from a I(1) have "0 < tau_r1 \<or> 0 < tau_m * I" by auto
  ultimately have "0 < 1 / (tau_r2 + tau_m * I) \<and>
                   1 / (tau_r2 + tau_m * I) < 1 / (tau_r1 + tau_m * I)"
    by (rule reciprocal_rate_decreasing)
  then have "0 < 1 / (tau_r2 + tau_m * I) \<and> 1 / (tau_r2 + tau_m * I) \<le> 1 / (tau_r1 + tau_m * I)"
    by simp
  with r show "\<exists>r1 r2. nu_0 L tau_m tau_r1 V_th_rel V_0_rel mu sigma = Some r1 \<and>
                nu_0 L tau_m tau_r2 V_th_rel V_0_rel mu sigma = Some r2 \<and>
                0 < r2 \<and> r2 \<le> r1"
    by blast
qed

text \<open>
  At \<open>V_th = 15\<close>, \<open>V_0 = 0\<close>, \<open>\<mu> = 0\<close> and \<open>\<sigma> = 5\<close> the lower bracket is halved at least once, so
  the interval of integration is not empty and the midpoint rule gives a positive
  integral factor.
\<close>

lemma siegert1_integrand_pos:
  assumes "y_r < y_th" and "0 < u"
  shows "0 < siegert1_integrand y_th y_r u"
proof -
  have "2 * (y_r - y_th) * u < 0"
    using assms by (simp add: mult_less_0_iff)
  then have "0 < 1 - exp (2 * (y_r - y_th) * u)" by simp
  then have "0 < exp (- ((u - y_th) ^ 2)) * (1 - exp (2 * (y_r - y_th) * u))"
    by (intro mult_pos_pos) simp_all
  then show ?thesis
    using assms(2) by (simp add: siegert1_integrand_def)
qed

lemma sample_integrand_at_threshold: "1 / 10 ^ 12 < siegert1_integrand 3 0 3"
proof -
  have "1 + 18 \<le> exp (18 :: real)" by (rule exp_ge_add_one_self)
  then have "19 \<le> exp (18 :: real)" by simp
  then have "1 / exp (18 :: real) \<le> 1 / 19"
    by (intro divide_left_mono) simp_all
  then have "exp (- 18 :: real) \<le> 1 / 19" by (simp add: exp_minus inverse_eq_divide)
  then have "18 / 19 / 3 \<le> (1 - exp (- 18 :: real)) / 3" by simp
  then show ?thesis by (simp add: siegert1_integrand_def)
qed

lemma sample_integral_pos:
  "\<exists>I. siegert1_integral sample_lib 15 0 0 5 = Some I \<and> 0 < 1 / 100 * I"
proof -
  let ?f = "siegert1_integrand ((15 - 0) / 5) ((0 - 0) / 5)"
  have f: "?f = siegert1_integrand 3 0" by simp
  obtain lb ub where lb: "siegert1_lower ?f ((15 - 0) / 5) 1 = Some lb"
    and ub: "siegert1_upper ?f ((15 - 0) / 5) 1 = Some ub"
    using siegert1_returns [of 15 0 5 0 sample_lib 0 0] by auto
  from lb have "siegert1_lower (siegert1_integrand 3 0) (3 / 2) (siegert1_integrand 3 0 3) = Some lb"
    using sample_integrand_at_threshold
    by (simp add: siegert1_lower.simps [of "siegert1_integrand 3 0" 3 1])
  from siegert1_lower_range_aux [OF this] have l: "0 < lb" "lb \<le> 3 / 2" by simp_all
  from siegert1_upper_range_aux [OF ub] have u: "3 \<le> ub" by simp
  have mid: "0 < siegert1_integrand 3 0 ((lb + ub) / 2)"
    using l u by (intro siegert1_integrand_pos) simp_all
  have width: "0 < ub - lb" using l u by linarith
  have "0 < exp (3 ^ 2) * ((ub - lb) * siegert1_integrand 3 0 ((lb + ub) / 2))"
    using width mid by (intro mult_pos_pos) simp_all
  with lb ub show ?thesis
    by (simp add: siegert1_integral_def Let_def quad_sample)
qed

theorem nu_0_decreasing_in_tau_r_witness:
  "nu_0 sample_lib (1 / 100) (3 / 1000) 50 0 0 2 = Some 0 \<and>
   (\<exists>r1 r2. nu_0 sample_lib (1 / 100) (1 / 1000) 15 0 0 5 = Some r1 \<and>
             nu_0 sample_lib (1 / 100) (2 / 1000) 15 0 0 5 = Some r2 \<and>
             0 < r2 \<and> r2 \<le> r1) \<and>
   (\<exists>r1 r2. nu_0 sample_lib (1 / 100) 0 15 0 0 5 = Some r1 \<and>
             nu_0 sample_lib (1 / 100) (2 / 1000) 15 0 0 5 = Some r2 \<and>
             0 < r2 \<and> r2 \<le> r1)"
proof (intro conjI)
  show "nu_0 sample_lib (1 / 100) (3 / 1000) 50 0 0 2 = Some 0"
    using nu_0_decreasing_in_tau_r [of 0 50 2 sample_lib "1 / 100" "3 / 1000" 0]
    by simp
next
  show "\<exists>r1 r2. nu_0 sample_lib (1 / 100) (1 / 1000) 15 0 0 5 = Some r1 \<and>
             nu_0 sample_lib (1 / 100) (2 / 1000) 15 0 0 5 = Some r2 \<and>
             0 < r2 \<and> r2 \<le> r1"
    using nu_0_decreasing_in_tau_r [of 0 15 5 sample_lib "1 / 100" 0 0 "1 / 1000" "2 / 1000"]
      quad_nonneg_sample
    by simp
next
  show "\<exists>r1 r2. nu_0 sample_lib (1 / 100) 0 15 0 0 5 = Some r1 \<and>
             nu_0 sample_lib (1 / 100) (2 / 1000) 15 0 0 5 = Some r2 \<and>
             0 < r2 \<and> r2 \<le> r1"
    using nu_0_decreasing_in_tau_r [of 0 15 5 sample_lib "1 / 100" 0 0 0 "2 / 1000"]
      quad_nonneg_sample sample_integral_pos
    by simp
qed

section \<open>Claims about the filtered-synapse rate\<close>

lemma nu0_fb433_rule:
  "nu0_fb433 L tau_m tau_s tau_r V_th_rel V_0_rel mu sigma =
     filtered_rate_rule (alpha L) L tau_m tau_s tau_r V_th_rel V_0_rel mu sigma"
  by (simp add: nu0_fb433_def filtered_rate_rule_def Let_def split: option.splits)

lemma filtered_rate_rule_differs:
  assumes "nu_0 L tau_m tau_r V_th_rel V_0_rel mu sigma = Some r"
    and "\<not> sqrt 2 * (V_th_rel - mu) / sigma > 20 / sqrt 2"
    and "a \<noteq> b" and "r \<noteq> 0" and "tau_m \<noteq> 0" and "0 < tau_s / tau_m"
    and "Phi L (sqrt 2 * (V_th_rel - mu) / sigma) \<noteq> Phi L (sqrt 2 * (V_0_rel - mu) / sigma)"
  shows "filtered_rate_rule a L tau_m tau_s tau_r V_th_rel V_0_rel mu sigma
           \<noteq> filtered_rate_rule b L tau_m tau_s tau_r V_th_rel V_0_rel mu sigma"
proof -
  from assms(6) have "0 < sqrt (tau_s / tau_m)" by (rule real_sqrt_gt_zero)
  then have "sqrt (tau_s / tau_m) \<noteq> 0" by linarith
  then show ?thesis
    using assms by (simp add: filtered_rate_rule_def Let_def)
qed

lemma alpha_sample: "alpha sample_lib = sqrt 2 * (146 / 100)"
  by (simp add: alpha_def sample_lib_def)

lemma alpha_claimed_sample: "alpha_claimed sample_lib = sqrt 2 * (46 / 100)"
  by (simp add: alpha_claimed_def riemann_zeta_def sample_lib_def)

lemma Phi_sample_differs: "Phi sample_lib (sqrt 2 * (15 - 0) / 5) \<noteq> Phi sample_lib (sqrt 2 * (0 - 0) / 5)"
proof -
  have e: "(1 :: real) \<le> exp 9" by simp
  have c: "sqrt (pi / 2) \<noteq> 0" by simp
  have zero: "Phi sample_lib (sqrt 2 * (0 - 0) / 5) = sqrt (pi / 2) * 1"
    by (simp add: Phi_def sample_lib_def)
  have far: "Phi sample_lib (sqrt 2 * (15 - 0) / 5) = sqrt (pi / 2) * (exp 9 * (7 / 4))"
    by (simp add: Phi_def sample_lib_def power_mult_distrib)
  have "exp 9 * (7 / 4) \<noteq> (1 :: real)" using e by linarith
  with c have "sqrt (pi / 2) * (exp 9 * (7 / 4)) \<noteq> sqrt (pi / 2) * 1"
    by (simp only: mult_cancel_left) simp
  then show ?thesis unfolding zero far .
qed

lemma nu_0_sample_positive:
  "\<exists>r. nu_0 sample_lib (1 / 100) (2 / 1000) 15 0 0 5 = Some r \<and> 0 < r"
proof -
  obtain I where I: "siegert1_integral sample_lib 15 0 0 5 = Some I" "0 \<le> I"
    using siegert1_integral_nonneg [OF quad_nonneg_sample, of 15 0 5 0] by auto
  then have "0 < 2 / 1000 + 1 / 100 * I" by simp
  then have "0 < 1 / (2 / 1000 + 1 / 100 * I)" by simp
  with I show ?thesis
    by (simp add: nu_0_def siegert1_eq_integral)
qed

text \<open>
  Claim C3, as stated, uses the constant \<open>\<alpha> = \<surd>2 \<cdot> |\<zeta>(1/2) + 1|\<close>. The source computes
  \<^verbatim>\<open>np.sqrt(2.) * abs(zetac(0.5) + 1)\<close>, and \<^verbatim>\<open>zetac\<close> is already the zeta function
  minus 1, so the constant of the source is \<open>\<surd>2 \<cdot> |\<zeta>(1/2)|\<close>. At \<open>\<tau>m = 10 ms\<close>,
  \<open>\<tau>s = 0.5 ms\<close>, \<open>\<tau>r = 2 ms\<close>, \<open>V_th = 15\<close>, \<open>V_0 = 0\<close>, \<open>\<mu> = 0\<close>, \<open>\<sigma> = 5\<close> the rule with the stated
  constant gives another rate than \<open>nu0_fb433\<close>.
\<close>

theorem nu0_fb433_alpha_counterexample:
  "nu0_fb433 sample_lib (1 / 100) (1 / 2000) (2 / 1000) 15 0 0 5
     \<noteq> filtered_rate_rule (alpha_claimed sample_lib) sample_lib (1 / 100) (1 / 2000) (2 / 1000) 15 0 0 5"
proof -
  obtain r where r: "nu_0 sample_lib (1 / 100) (2 / 1000) 15 0 0 5 = Some r" "0 < r"
    using nu_0_sample_positive by blast
  have "sqrt 2 * (15 - 0) / 5 * sqrt 2 = 3 * (sqrt 2 * sqrt 2)" by simp
  also have "\<dots> = 6" by simp
  finally have six: "sqrt 2 * (15 - 0) / 5 * sqrt 2 = 6" .
  have "sqrt 2 * (15 - 0) / 5 \<le> 20 / sqrt 2"
  proof (subst pos_le_divide_eq)
    show "0 < sqrt (2 :: real)" by simp
    show "sqrt 2 * (15 - 0) / 5 * sqrt 2 \<le> (20 :: real)" unfolding six by simp
  qed
  then have near: "\<not> sqrt 2 * (15 - 0) / 5 > 20 / sqrt 2"
    by linarith
  have ne: "alpha sample_lib \<noteq> alpha_claimed sample_lib"
    by (simp add: alpha_sample alpha_claimed_sample)
  show ?thesis
    unfolding nu0_fb433_rule
    by (rule filtered_rate_rule_differs [OF r(1) near ne _ _ _ Phi_sample_differs])
       (use r(2) in simp_all)
qed

text \<open>
  Claim C3, amended. For every input, \<open>nu0_fb433\<close> first evaluates the delta-synapse rate
  \<open>r\<close> (and does not return when that evaluation does not); if
  \<open>x_th = \<surd>2 \<cdot> (V_th - \<mu>) / \<sigma>\<close> is greater than \<open>20 / \<surd>2\<close> it returns \<open>r\<close> unmodified, and
  otherwise it returns
  \<open>r - \<surd>(\<tau>s / \<tau>m) \<cdot> \<alpha> / (\<tau>m \<cdot> \<surd>2) \<cdot> (\<Phi>(x_th) - \<Phi>(x_r)) \<cdot> (r \<cdot> \<tau>m)\<^sup>2\<close> with
  \<open>\<alpha> = \<surd>2 \<cdot> |\<zeta>(1/2)|\<close> and \<open>x_r = \<surd>2 \<cdot> (V_0 - \<mu>) / \<sigma>\<close>.
\<close>

theorem nu0_fb433_refines_rule:
  "nu0_fb433 L tau_m tau_s tau_r V_th_rel V_0_rel mu sigma =
     filtered_rate_rule (sqrt 2 * \<bar>riemann_zeta L (1 / 2)\<bar>) L tau_m tau_s tau_r V_th_rel V_0_rel mu sigma"
  by (simp add: nu0_fb433_rule alpha_def riemann_zeta_def)

section \<open>Claims about the delay distribution\<close>

lemma map2_replicate_one:
  "length row = n \<Longrightarrow> map2 (*) (replicate n (1 :: complex)) row = row"
  by (induction row arbitrary: n) auto

lemma ew_mul_ones:
  assumes "length A = n" and "\<forall>row \<in> set A. length row = n"
  shows "ew_mul (replicate n (replicate n 1)) A = A"
proof -
  have "map2 (map2 (*)) (replicate m (replicate n (1 :: complex))) A = A"
    if "length A = m" "\<forall>row \<in> set A. length row = n" for m
    using that by (induction A arbitrary: m) (auto simp: map2_replicate_one)
  with assms show ?thesis by (simp add: ew_mul_def)
qed

text \<open>
  Claim C9. For every dimension \<open>N\<close>, every \<open>N \<times> N\<close> delay matrix \<open>D\<close>, every
  delay-standard-deviation matrix and every frequency \<open>\<omega>\<close>, \<open>delay_dist_matrix_single\<close>
  with kind \<open>none\<close> returns the \<open>N \<times> N\<close> matrix \<open>exp(-i \<omega> D)\<close>, taken elementwise; at
  \<open>\<omega> = 0\<close> it returns the all-ones matrix.
\<close>

theorem delay_dist_matrix_single_none:
  assumes "length Delay = dimension" and "\<forall>row \<in> set Delay. length row = dimension"
  shows "delay_dist_matrix_single L dimension Delay Delay_sd ''none'' omega
           = Some (map (map (\<lambda>d. exp (- (\<i> * of_real omega * of_real d)))) Delay) \<and>
         delay_dist_matrix_single L dimension Delay Delay_sd ''none'' 0
           = Some (replicate dimension (replicate dimension 1))"
proof
  have shape: "length (map (map f) Delay) = dimension"
    "\<forall>row \<in> set (map (map f) Delay). length row = dimension" for f :: "real \<Rightarrow> complex"
    using assms by auto
  show "delay_dist_matrix_single L dimension Delay Delay_sd ''none'' omega
           = Some (map (map (\<lambda>d. exp (- (\<i> * of_real omega * of_real d)))) Delay)"
    by (simp add: delay_dist_matrix_single_def Let_def ew_mul_ones [OF shape] Complex_eq)
  have ones: "map (map (\<lambda>d. 1 :: complex)) Delay = replicate dimension (replicate dimension 1)"
    using assms by (intro nth_equalityI) (auto simp: map_replicate_const)
  have "delay_dist_matrix_single L dimension Delay Delay_sd ''none'' 0
           = Some (map (map (\<lambda>d. 1 :: complex)) Delay)"
    by (simp add: delay_dist_matrix_single_def Let_def ew_mul_ones [OF shape] Complex_eq)
  then show "delay_dist_matrix_single L dimension Delay Delay_sd ''none'' 0
           = Some (replicate dimension (replicate dimension 1))"
    by (simp only: ones)
qed

theorem delay_dist_matrix_single_none_witness:
  "delay_dist_matrix_single sample_lib 2 [[1, 2], [3, 4]] [[0, 0], [0, 0]] ''none'' 5
     = Some [[exp (- (\<i> * 5 * 1)), exp (- (\<i> * 5 * 2))],
             [exp (- (\<i> * 5 * 3)), exp (- (\<i> * 5 * 4))]] \<and>
   delay_dist_matrix_single sample_lib 2 [[1, 2], [3, 4]] [[0, 0], [0, 0]] ''none'' 0
     = Some [[1, 1], [1, 1]]"
  using delay_dist_matrix_single_none [of "[[1, 2], [3, 4]]" 2 sample_lib "[[0, 0], [0, 0]]" 5]
  by (simp add: numeral_2_eq_2)

section \<open>Matrices as lists of rows\<close>

lemma is_matrix_map2:
  "is_matrix n m A \<Longrightarrow> is_matrix n m B \<Longrightarrow> is_matrix n m (map2 (map2 f) A B)"
  by (auto simp: is_matrix_def dest!: set_zip_leftD set_zip_rightD elim!: in_set_zipE)

lemma is_matrix_nth: "is_matrix n m A \<Longrightarrow> a < n \<Longrightarrow> length (A ! a) = m"
  by (simp add: is_matrix_def)

lemma map2_map2_nth:
  assumes "is_matrix n m A" and "is_matrix n m B" and "a < n" and "b < m"
  shows "map2 (map2 f) A B ! a ! b = f (A ! a ! b) (B ! a ! b)"
  using assms by (simp add: is_matrix_def)

lemma matrix_eqI:
  assumes "is_matrix n m A" and "is_matrix n m B"
    and "\<And>a b. a < n \<Longrightarrow> b < m \<Longrightarrow> A ! a ! b = B ! a ! b"
  shows "A = B"
proof (rule nth_equalityI)
  show "length A = length B" using assms(1,2) by (simp add: is_matrix_def)
next
  fix a assume "a < length A"
  then have a: "a < n" using assms(1) by (simp add: is_matrix_def)
  show "A ! a = B ! a"
  proof (rule nth_equalityI)
    show "length (A ! a) = length (B ! a)"
      using assms(1,2) a by (simp add: is_matrix_nth)
  next
    fix b assume "b < length (A ! a)"
    then have "b < m" using assms(1) a by (simp add: is_matrix_nth)
    with a show "A ! a ! b = B ! a ! b" by (rule assms(3))
  qed
qed

lemma is_matrix_table: "is_matrix n m (map (\<lambda>a. map (f a) [0..<m]) [0..<n])"
  by (auto simp: is_matrix_def)

lemma dot_sum:
  assumes "length v = N" and "length w = N"
  shows "dot v w = (\<Sum>c<N. v ! c * w ! c)"
proof -
  have "dot v w = (\<Sum>c = 0..<length (map2 (*) v w). map2 (*) v w ! c)"
    unfolding dot_def by (rule sum_list_sum_nth)
  also have "\<dots> = (\<Sum>c = 0..<N. v ! c * w ! c)"
    using assms by (intro sum.cong) simp_all
  finally show ?thesis by (simp add: atLeast0LessThan)
qed

section \<open>The first index of the minimum\<close>

lemma argmin_scan_first:
  assumes "first_argmin pre best" and "pre ! best = best_val"
  shows "first_argmin (pre @ vs) (argmin_scan best best_val (length pre) vs)"
  using assms
proof (induction vs arbitrary: best best_val pre)
  case Nil
  then show ?case by simp
next
  case (Cons v vs)
  from Cons.prems have best: "best < length pre"
    and least: "\<And>j. j < length pre \<Longrightarrow> best_val \<le> pre ! j"
    and first: "\<And>j. j < best \<Longrightarrow> best_val < pre ! j"
    by (auto simp: first_argmin_def)
  show ?case
  proof (cases "v < best_val")
    case True
    have "first_argmin (pre @ [v]) (length pre)"
      unfolding first_argmin_def using True least
      by (auto simp: nth_append less_Suc_eq dest: least)
    from Cons.IH [OF this, of v] True show ?thesis by simp
  next
    case False
    have "first_argmin (pre @ [v]) best"
      unfolding first_argmin_def using False best least first Cons.prems(2)
      by (auto simp: nth_append less_Suc_eq)
    from Cons.IH [OF this, of best_val] False best Cons.prems(2) show ?thesis
      by (simp add: nth_append)
  qed
qed

lemma argmin_first:
  assumes "xs \<noteq> []"
  shows "\<exists>k. argmin xs = Inr k \<and> first_argmin xs k"
proof -
  from assms obtain x rest where xs: "xs = x # rest" by (cases xs) auto
  have "first_argmin [x] 0" by (simp add: first_argmin_def)
  from argmin_scan_first [OF this, of x rest] show ?thesis
    by (simp add: xs argmin_def)
qed


section \<open>Claims about the sensitivity measure\<close>

lemma effective_H_rows:
  assumes "0 < N" and "length n = N"
  shows "effective_H tau_m tau_s n N omega =
           Inr (map (\<lambda>a. replicate N (of_real tau_m * (if omega < 0 then cnj (n ! a) else n ! a)
                                          / Complex 1 (omega * tau_s))) [0..<N])"
proof (cases "omega < 0")
  case True
  have "map (\<lambda>h. replicate N h) (map (\<lambda>t. of_real tau_m * t / Complex 1 (omega * tau_s)) (map cnj n))
        = map (\<lambda>a. replicate N (of_real tau_m * cnj (n ! a) / Complex 1 (omega * tau_s))) [0..<N]"
    using assms(2) by (intro nth_equalityI) simp_all
  with True assms show ?thesis by (simp add: effective_H_def Let_def)
next
  case False
  have "map (\<lambda>h. replicate N h) (map (\<lambda>t. of_real tau_m * t / Complex 1 (omega * tau_s)) n)
        = map (\<lambda>a. replicate N (of_real tau_m * n ! a / Complex 1 (omega * tau_s))) [0..<N]"
    using assms(2) by (intro nth_equalityI) simp_all
  with False assms show ?thesis by (simp add: effective_H_def Let_def)
qed

lemma effective_connectivity_code:
  assumes "is_matrix N N J" and "is_matrix N N D"
  shows "ew_mul (ew_mul (map (\<lambda>a. replicate N (of_real tau_m * (if omega < 0 then cnj (n ! a) else n ! a)
                                          / Complex 1 (omega * tau_s))) [0..<N])
                        (map (map of_real) J)) D
         = effective_connectivity tau_m tau_s n J D N omega"
proof -
  let ?H = "map (\<lambda>a. replicate N (of_real tau_m * (if omega < 0 then cnj (n ! a) else n ! a)
                                          / Complex 1 (omega * tau_s))) [0..<N]"
  let ?J = "map (map of_real) J :: cmatrix"
  have H: "is_matrix N N ?H" by (auto simp: is_matrix_def)
  have J: "is_matrix N N ?J" using assms(1) by (auto simp: is_matrix_def)
  have HJ: "is_matrix N N (map2 (map2 (*)) ?H ?J)" by (rule is_matrix_map2 [OF H J])
  show ?thesis
    unfolding ew_mul_def
  proof (rule matrix_eqI [where n = N and m = N])
    show "is_matrix N N (map2 (map2 (*)) (map2 (map2 (*)) ?H ?J) D)"
      by (rule is_matrix_map2 [OF HJ assms(2)])
    show "is_matrix N N (effective_connectivity tau_m tau_s n J D N omega)"
      unfolding effective_connectivity_def by (rule is_matrix_table)
  next
    fix a b assume ab: "a < N" "b < N"
    have "?J ! a ! b = of_real (J ! a ! b)"
      using assms(1) ab by (simp add: is_matrix_def)
    then show "map2 (map2 (*)) (map2 (map2 (*)) ?H ?J) D ! a ! b
                 = effective_connectivity tau_m tau_s n J D N omega ! a ! b"
      using ab by (simp add: map2_map2_nth [OF HJ assms(2)] map2_map2_nth [OF H J]
                     effective_connectivity_def)
  qed
qed

text \<open>
  Claim C7. \<open>sensitivity_measure\<close> eigendecomposes the effective-connectivity matrix
  \<open>MH(\<omega>)\<close>, selects the eigenvalue index \<open>k\<close> by strict argmin over \<open>|e - 1|\<close> (the first
  index on ties; the source fixes \<^verbatim>\<open>index = None\<close>, so no other index is ever supplied),
  and returns the rank-1 projector \<open>outer(u\<^sup>-\<^sup>1_k, u_k)\<close> divided by the scalar
  \<open>u\<^sup>-\<^sup>1_k \<cdot> u_k\<close> and multiplied elementwise by \<open>MH(\<omega>)\<close>, where \<open>u\<^sup>-\<^sup>1_k\<close> is row \<open>k\<close> of the
  inverse eigenvector matrix and \<open>u_k\<close> is column \<open>k\<close> of the eigenvector matrix.
\<close>

theorem sensitivity_measure_projector:
  assumes "0 < N" and "length n = N" and "is_matrix N N J" and "is_matrix N N D"
    and "eig L (effective_connectivity tau_m tau_s n J D N omega) = Inr (e, U)"
    and "length e = N" and "is_matrix N N U"
    and "inv L U = Inr U_inv" and "is_matrix N N U_inv"
  shows "\<exists>k. first_argmin (map (\<lambda>x. cmod (x - 1)) e) k \<and>
             sensitivity_measure L n D J tau_m tau_s N omega =
               Inr (map (\<lambda>a. map (\<lambda>b. U_inv ! k ! a * U ! b ! k
                                          / (\<Sum>c<N. U_inv ! k ! c * U ! c ! k)
                                        * effective_connectivity tau_m tau_s n J D N omega ! a ! b)
                                [0..<N]) [0..<N])"
proof -
  let ?MH = "effective_connectivity tau_m tau_s n J D N omega"
  have MH: "is_matrix N N ?MH"
    unfolding effective_connectivity_def by (rule is_matrix_table)
  have "map (\<lambda>x. cmod (x - 1)) e \<noteq> []" using assms(1,6) by auto
  from argmin_first [OF this] obtain k
    where k: "argmin (map (\<lambda>x. cmod (x - 1)) e) = Inr k"
      and first: "first_argmin (map (\<lambda>x. cmod (x - 1)) e) k"
    by blast
  from first assms(6) have kN: "k < N" by (simp add: first_argmin_def)
  let ?u_inv = "U_inv ! k" and ?u = "map (\<lambda>row. row ! k) U"
  have len: "length ?u_inv = N" "length ?u = N"
    using assms(7,9) kN by (simp_all add: is_matrix_def)
  have idx: "k < length U_inv \<and> (\<forall>row \<in> set U. k < length row)"
    using assms(7,9) kN by (simp add: is_matrix_def)
  have d: "dot ?u_inv ?u = (\<Sum>c<N. U_inv ! k ! c * U ! c ! k)"
  proof -
    have "dot ?u_inv ?u = (\<Sum>c<N. ?u_inv ! c * ?u ! c)" by (rule dot_sum [OF len])
    also have "\<dots> = (\<Sum>c<N. U_inv ! k ! c * U ! c ! k)"
      using assms(7) by (intro sum.cong) (simp_all add: is_matrix_def)
    finally show ?thesis .
  qed
  let ?T = "map (map (\<lambda>t. t / dot ?u_inv ?u)) (outer ?u_inv ?u)"
  have T: "is_matrix N N ?T" using len by (auto simp: is_matrix_def outer_def)
  have result: "ew_mul ?T ?MH =
      map (\<lambda>a. map (\<lambda>b. U_inv ! k ! a * U ! b ! k / (\<Sum>c<N. U_inv ! k ! c * U ! c ! k)
                           * ?MH ! a ! b) [0..<N]) [0..<N]"
    unfolding ew_mul_def
  proof (rule matrix_eqI [where n = N and m = N])
    show "is_matrix N N (map2 (map2 (*)) ?T ?MH)" by (rule is_matrix_map2 [OF T MH])
    show "is_matrix N N (map (\<lambda>a. map (\<lambda>b. U_inv ! k ! a * U ! b ! k
             / (\<Sum>c<N. U_inv ! k ! c * U ! c ! k) * ?MH ! a ! b) [0..<N]) [0..<N])"
      by (rule is_matrix_table)
  next
    fix a b assume ab: "a < N" "b < N"
    have "?T ! a ! b = U_inv ! k ! a * U ! b ! k / (\<Sum>c<N. U_inv ! k ! c * U ! c ! k)"
      using ab len assms(7) by (simp add: outer_def d is_matrix_def)
    then show "map2 (map2 (*)) ?T ?MH ! a ! b =
            map (\<lambda>a. map (\<lambda>b. U_inv ! k ! a * U ! b ! k / (\<Sum>c<N. U_inv ! k ! c * U ! c ! k)
                           * ?MH ! a ! b) [0..<N]) [0..<N] ! a ! b"
      using ab by (simp add: map2_map2_nth [OF T MH])
  qed
  have "sensitivity_measure L n D J tau_m tau_s N omega = Inr (ew_mul ?T ?MH)"
    unfolding sensitivity_measure_def effective_H_rows [OF assms(1,2)]
    using assms(5,8) k idx len
    by (simp add: Let_def effective_connectivity_code [OF assms(3,4)] select_index_def)
  then show ?thesis
    unfolding result using first by (intro exI [of _ k] conjI)
qed


lemma upt_2: "[0..<2] = [0, 1]"
  by (simp add: upt_rec)

lemma sample_connectivity:
  "effective_connectivity 1 1 [1, 1] [[1, 0], [0, 2]] [[1, 1], [1, 1]] 2 0 = [[1, 0], [0, 2]]"
  by (simp add: effective_connectivity_def upt_2 Complex_eq)

lemma sample_eig_diag: "eig sample_lib [[1, 0], [0, 2]] = Inr ([1, 2], [[1, 0], [0, 1]])"
  by (simp add: sample_lib_def is_diagonal_def diag_def identity_def upt_2)

lemma sample_inv_identity: "inv sample_lib [[1, 0], [0, 1]] = Inr [[1, 0], [0, 1]]"
  by (auto simp: sample_lib_def is_diagonal_def diag_def upt_2)

lemma sum_lessThan_2: "(\<Sum>c<(2 :: nat). f c) = f 0 + (f 1 :: complex)"
  by (simp add: numeral_2_eq_2 lessThan_Suc)

theorem sensitivity_measure_projector_witness:
  "sensitivity_measure sample_lib [1, 1] [[1, 1], [1, 1]] [[1, 0], [0, 2]] 1 1 2 0
     = Inr [[1, 0], [0, 0]]"
proof -
  have "\<exists>k. first_argmin (map (\<lambda>x. cmod (x - 1)) [1, 2]) k \<and>
          sensitivity_measure sample_lib [1, 1] [[1, 1], [1, 1]] [[1, 0], [0, 2]] 1 1 2 0 =
            Inr (map (\<lambda>a. map (\<lambda>b. [[1, 0], [0, 1]] ! k ! a * [[1, 0], [0, 1]] ! b ! k
                                   / (\<Sum>c<2. [[1, 0], [0, 1]] ! k ! c * [[1, 0], [0, 1]] ! c ! k)
                                 * effective_connectivity 1 1 [1, 1] [[1, 0], [0, 2]] [[1, 1], [1, 1]] 2 0 ! a ! b)
                         [0..<2]) [0..<2])"
    by (rule sensitivity_measure_projector [where e = "[1, 2]"])
       (simp_all add: is_matrix_def sample_connectivity sample_eig_diag sample_inv_identity)
  then obtain k where k: "first_argmin (map (\<lambda>x. cmod (x - 1)) [1, 2]) k"
    and T: "sensitivity_measure sample_lib [1, 1] [[1, 1], [1, 1]] [[1, 0], [0, 2]] 1 1 2 0 =
            Inr (map (\<lambda>a. map (\<lambda>b. [[1, 0], [0, 1]] ! k ! a * [[1, 0], [0, 1]] ! b ! k
                                   / (\<Sum>c<2. [[1, 0], [0, 1]] ! k ! c * [[1, 0], [0, 1]] ! c ! k)
                                 * effective_connectivity 1 1 [1, 1] [[1, 0], [0, 2]] [[1, 1], [1, 1]] 2 0 ! a ! b)
                         [0..<2]) [0..<2])"
    by blast
  from k have "k = 0"
    by (auto simp: first_argmin_def less_Suc_eq numeral_2_eq_2)
  with T show ?thesis
    by (simp add: sample_connectivity upt_2 sum_lessThan_2)
qed

section \<open>Shapes in the power spectrum\<close>

lemma transpose_matrix:
  assumes "is_matrix n m A" and "0 < n"
  shows "transpose A = map (\<lambda>i. map (\<lambda>j. A ! j ! i) [0..<n]) [0..<m]"
proof -
  have "transpose A = map (\<lambda>i. map (\<lambda>j. A ! j ! i) [0..<length A]) [0..<m]"
    using assms by (intro transpose_rectangle) (auto simp: is_matrix_def)
  with assms(1) show ?thesis by (simp add: is_matrix_def)
qed

lemma is_matrix_transpose:
  assumes "is_matrix n m A" and "0 < n"
  shows "is_matrix m n (transpose A)"
  unfolding transpose_matrix [OF assms] by (rule is_matrix_table)

lemma is_matrix_mat_mul:
  assumes "length A = n" and "is_matrix k m B" and "0 < k"
  shows "is_matrix n m (mat_mul A B)"
  using assms is_matrix_transpose [OF assms(2,3)]
  by (auto simp: mat_mul_def is_matrix_def)

lemma is_matrix_identity: "is_matrix n n (identity n)"
  unfolding identity_def by (rule is_matrix_table)

lemma length_diag:
  assumes "is_matrix n n C"
  shows "length (diag C) = n"
proof -
  have "filter (\<lambda>(i, row). i < length row) (zip [0..<length C] C) = zip [0..<length C] C"
    using assms by (intro filter_True) (auto simp: is_matrix_def in_set_zip)
  with assms show ?thesis by (simp add: diag_def is_matrix_def)
qed

lemma effective_H_shape:
  assumes "effective_H tau_m tau_s n N omega = Inr H"
  shows "0 < N \<and> is_matrix N N H"
  using assms by (auto simp: effective_H_def Let_def is_matrix_def split: if_splits)

lemma power_spectra_single_freq_shape:
  assumes "power_spectra_single_freq L tau_m tau_s n N J K D rates Npop omega = Inr spec"
    and "is_matrix N N J" and "is_matrix N N K" and "is_matrix N N D"
    and "\<forall>A Q. is_matrix N N A \<and> inv L A = Inr Q \<longrightarrow> is_matrix N N Q"
  shows "length spec = N \<and> (\<forall>x \<in> set spec. 0 \<le> x)"
proof -
  from assms(1) obtain H where H: "effective_H tau_m tau_s n N omega = Inr H"
    by (auto simp: power_spectra_single_freq_def split: sum.splits)
  from effective_H_shape [OF H] have N: "0 < N" and Hm: "is_matrix N N H" by simp_all
  let ?MH = "ew_mul (ew_mul (ew_mul H (map (map of_real) J)) (map (map of_real) K)) D"
  let ?A = "map2 (map2 (-)) (identity N) ?MH"
  from assms(1) H obtain Q where Q: "inv L ?A = Inr Q"
    and spec: "spec = map cmod (diag (mat_mul Q
        (mat_mul (map (\<lambda>row. map2 (\<lambda>x (r, n). x * of_real r / of_real n) row (zip rates Npop))
                    (identity N))
           (transpose (map (map cnj) Q)))))"
    by (auto simp: power_spectra_single_freq_def Let_def split: sum.splits)
  have Jm: "is_matrix N N (map (map of_real) J :: cmatrix)"
    and Km: "is_matrix N N (map (map of_real) K :: cmatrix)"
    using assms(2,3) by (auto simp: is_matrix_def)
  have "is_matrix N N ?MH"
    unfolding ew_mul_def by (intro is_matrix_map2 Hm Jm Km assms(4))
  then have "is_matrix N N ?A" by (intro is_matrix_map2 is_matrix_identity)
  with Q assms(5) have Qm: "is_matrix N N Q" by blast
  then have "is_matrix N N (map (map cnj) Q)" by (auto simp: is_matrix_def)
  then have QH: "is_matrix N N (transpose (map (map cnj) Q))"
    using N by (rule is_matrix_transpose)
  have DQ: "is_matrix N N (mat_mul (map (\<lambda>row. map2 (\<lambda>x (r, n). x * of_real r / of_real n) row
                                          (zip rates Npop)) (identity N))
                         (transpose (map (map cnj) Q)))"
    by (rule is_matrix_mat_mul [OF _ QH N]) (simp add: identity_def)
  have "is_matrix N N (mat_mul Q
        (mat_mul (map (\<lambda>row. map2 (\<lambda>x (r, n). x * of_real r / of_real n) row (zip rates Npop))
                    (identity N))
           (transpose (map (map cnj) Q))))"
    by (rule is_matrix_mat_mul [OF _ DQ N]) (use Qm in \<open>simp add: is_matrix_def\<close>)
  from length_diag [OF this] show ?thesis
    unfolding spec by auto
qed

lemma collect_err_Inr_D: "collect_err xs = Inr vs \<Longrightarrow> xs = map Inr vs"
proof (induction xs arbitrary: vs)
  case Nil
  then show ?case by simp
next
  case (Cons x xs)
  from Cons.prems obtain v ws where "x = Inr v" "collect_err xs = Inr ws" "vs = v # ws"
    by (auto split: sum.splits)
  with Cons.IH [of ws] show ?case by simp
qed


section \<open>Claims about the power spectrum\<close>

text \<open>
  Claim C8. Every entry of the array returned by \<open>power_spectra\<close> is a non-negative real
  number, for every (population, frequency) pair, and the array has the populations as its
  first axis and the frequencies as its second (\<open>N \<times> M\<close>): the entry for population \<open>a\<close> and
  frequency \<open>m\<close> is entry \<open>a\<close> of the spectrum computed at frequency \<open>m\<close>. The frequency grid
  is not empty, the matrices are \<open>N \<times> N\<close>, and the matrix inverse returns a matrix of the
  shape of its argument.
\<close>

theorem power_spectra_nonneg:
  assumes "power_spectra L tau_m tau_s N J K D Npop rates n omegas = Inr P"
    and "omegas \<noteq> []"
    and "is_matrix N N J" and "is_matrix N N K" and "\<forall>A \<in> set D. is_matrix N N A"
    and "\<forall>A Q. is_matrix N N A \<and> inv L A = Inr Q \<longrightarrow> is_matrix N N Q"
  shows "is_matrix N (length omegas) P \<and>
         (\<forall>a<N. \<forall>m<length omegas.
            0 \<le> P ! a ! m \<and>
            (\<exists>spec. power_spectra_single_freq L tau_m tau_s (n ! m) N J K (D ! m) rates Npop
                       (omegas ! m) = Inr spec \<and> P ! a ! m = spec ! a))"
proof -
  let ?M = "length omegas"
  let ?xs = "map (\<lambda>(i, omega).
               if i < length n \<and> i < length D
               then power_spectra_single_freq L tau_m tau_s (n ! i) N J K (D ! i) rates Npop omega
               else Inl IndexError) (zip [0..<length omegas] omegas)"
  from assms(1) obtain pw where c: "collect_err ?xs = Inr pw" and P: "P = transpose pw"
    by (auto simp: power_spectra_def split: sum.splits)
  from collect_err_Inr_D [OF c] have xs: "?xs = map Inr pw" .
  then have "length ?xs = length pw" by simp
  then have len: "length pw = ?M" by simp
  have row: "m < length n \<and> m < length D \<and>
             power_spectra_single_freq L tau_m tau_s (n ! m) N J K (D ! m) rates Npop (omegas ! m)
               = Inr (pw ! m)" if "m < ?M" for m
  proof -
    have "?xs ! m = Inr (pw ! m)" using xs that len by simp
    then show ?thesis using that by (simp split: if_splits)
  qed
  have shape: "length (pw ! m) = N \<and> (\<forall>x \<in> set (pw ! m). 0 \<le> x)" if "m < ?M" for m
  proof -
    from row [OF that] have "D ! m \<in> set D" by simp
    with assms(5) have "is_matrix N N (D ! m)" by blast
    from power_spectra_single_freq_shape [OF _ assms(3,4) this assms(6)] row [OF that]
    show ?thesis by blast
  qed
  have pwm: "is_matrix ?M N pw"
    using len shape by (auto simp: is_matrix_def in_set_conv_nth)
  have M: "0 < ?M" using assms(2) by simp
  have T: "P = map (\<lambda>a. map (\<lambda>m. pw ! m ! a) [0..<?M]) [0..<N]"
    unfolding P by (rule transpose_matrix [OF pwm M])
  have "is_matrix N ?M P" unfolding T by (rule is_matrix_table)
  moreover have "0 \<le> P ! a ! m \<and>
      (\<exists>spec. power_spectra_single_freq L tau_m tau_s (n ! m) N J K (D ! m) rates Npop
                 (omegas ! m) = Inr spec \<and> P ! a ! m = spec ! a)"
    if "a < N" "m < ?M" for a m
  proof -
    have e: "P ! a ! m = pw ! m ! a" using that by (simp add: T)
    have "pw ! m ! a \<in> set (pw ! m)" using shape [OF that(2)] that(1) by simp
    with shape [OF that(2)] have "0 \<le> pw ! m ! a" by blast
    with e row [OF that(2)] show ?thesis by simp
  qed
  ultimately show ?thesis by blast
qed


lemma sample_inv_shape:
  "\<forall>A Q. is_matrix N N A \<and> inv sample_lib A = Inr Q \<longrightarrow> is_matrix N N Q"
  by (auto simp: sample_lib_def is_matrix_def split: if_splits)

lemma sample_power_single:
  "power_spectra_single_freq sample_lib 1 1 [1, 1] 2 [[1 / 2, 0], [0, 0]] [[1, 0], [0, 1]]
     [[1, 1], [1, 1]] [3, 4] [1, 2] 0 = Inr [12, 2]"
proof -
  have H: "effective_H 1 1 [1, 1] 2 0 = Inr [[1, 1], [1, 1]]"
    by (simp add: effective_H_def Let_def Complex_eq numeral_2_eq_2)
  have A: "map2 (map2 (-)) (identity 2)
             (ew_mul (ew_mul (ew_mul [[1, 1], [1, 1]] (map (map of_real) [[1 / 2, 0], [0, 0]]))
                        (map (map of_real) [[1, 0], [0, 1]])) [[1, 1], [1, 1]])
           = [[1 / 2, 0], [0, 1]]"
    by (simp add: ew_mul_def identity_def upt_2)
  have Q: "inv sample_lib [[1 / 2, 0], [0, 1]] = Inr [[2, 0], [0, 1]]"
    by (auto simp: sample_lib_def is_diagonal_def diag_def upt_2)
  have D: "map (\<lambda>row. map2 (\<lambda>x (r, n). x * of_real r / of_real n) row (zip [3, 4] [1, 2]))
             (identity 2) = [[3, 0], [0, 2 :: complex]]"
    by (simp add: identity_def upt_2)
  have C: "mat_mul [[2, 0], [0, 1]] (mat_mul [[3, 0], [0, 2]] (transpose (map (map cnj) [[2, 0], [0, 1]])))
           = [[12, 0], [0, 2 :: complex]]"
    by (simp add: mat_mul_def dot_def)
  have S: "map cmod (diag [[12, 0], [0, 2 :: complex]]) = [12, 2]"
    by (simp add: diag_def upt_2)
  show ?thesis
    by (simp only: power_spectra_single_freq_def H A Q D C S Let_def sum.case)
qed

theorem power_spectra_nonneg_witness:
  "power_spectra sample_lib 1 1 2 [[1 / 2, 0], [0, 0]] [[1, 0], [0, 1]] [[[1, 1], [1, 1]]]
     [1, 2] [3, 4] [[1, 1]] [0] = Inr [[12], [2]] \<and>
   length [[12], [2 :: real]] = 2 \<and> length ([[12], [2 :: real]] ! 0) = length [0 :: real] \<and>
   length ([[12], [2 :: real]] ! 1) = length [0 :: real] \<and>
   0 \<le> [[12], [2 :: real]] ! 0 ! 0 \<and> 0 \<le> [[12], [2 :: real]] ! 1 ! 0"
proof -
  have P: "power_spectra sample_lib 1 1 2 [[1 / 2, 0], [0, 0]] [[1, 0], [0, 1]] [[[1, 1], [1, 1]]]
     [1, 2] [3, 4] [[1, 1]] [0] = Inr [[12], [2]]"
    by (simp add: power_spectra_def sample_power_single)
  from power_spectra_nonneg [OF P _ _ _ _ sample_inv_shape] P show ?thesis
    by (simp add: is_matrix_def)
qed

section \<open>The relaxation step of the fixed-point iteration\<close>

lemma mat_vec_nth:
  assumes "is_matrix N N K" and "is_matrix N N J" and "length nu = N" and "i < N"
  shows "mat_vec (map2 (map2 f) K J) nu ! i = (\<Sum>k<N. f (K ! i ! k) (J ! i ! k) * nu ! k)"
proof -
  have row: "length (map2 f (K ! i) (J ! i)) = N"
    using assms by (simp add: is_matrix_def)
  have "mat_vec (map2 (map2 f) K J) nu ! i = dot (map2 f (K ! i) (J ! i)) nu"
    using assms by (simp add: mat_vec_def is_matrix_def)
  also have "\<dots> = (\<Sum>k<N. map2 f (K ! i) (J ! i) ! k * nu ! k)"
    by (rule dot_sum [OF row assms(3)])
  also have "\<dots> = (\<Sum>k<N. f (K ! i ! k) (J ! i ! k) * nu ! k)"
    using assms by (intro sum.cong) (simp_all add: is_matrix_def)
  finally show ?thesis .
qed

lemma length_mat_vec: "length (mat_vec A v) = length A"
  by (simp add: mat_vec_def)

lemma those_length: "those xs = Some ys \<Longrightarrow> length ys = length xs"
  by (induction xs arbitrary: ys) (auto split: option.splits)

lemma get_rate_difference_candidate:
  assumes "is_matrix N N K" and "is_matrix N N J" and "length K_ext = N" and "length nu = N"
  shows "get_rate_difference L tau_m tau_s tau_r V_0_rel V_th_rel K J j nu_ext K_ext nu =
           (case candidate_rates L N tau_m tau_s tau_r V_0_rel V_th_rel K J j nu_ext K_ext nu of
              None \<Rightarrow> None
            | Some candidate \<Rightarrow> Some (map2 (\<lambda>a b. - a + b) nu candidate))"
proof -
  let ?mu = "map2 (+) (map (\<lambda>x. x * tau_m) (mat_vec (map2 (map2 (*)) K J) nu))
               (map (\<lambda>k. j * k * nu_ext * tau_m) K_ext)"
  let ?var = "map2 (+) (map (\<lambda>x. x * tau_m) (mat_vec (map2 (map2 (\<lambda>k w. k * w ^ 2)) K J) nu))
                (map (\<lambda>k. j ^ 2 * k * nu_ext * tau_m) K_ext)"
  have lenK: "length (map2 (map2 f) K J) = N" for f :: "real \<Rightarrow> real \<Rightarrow> real"
    using assms(1,2) by (simp add: is_matrix_def)
  have mu: "?mu = map (network_mean N tau_m K J j nu_ext K_ext nu) [0..<N]"
  proof (rule nth_equalityI)
    show "length ?mu = length (map (network_mean N tau_m K J j nu_ext K_ext nu) [0..<N])"
      using assms(3) lenK by (simp add: length_mat_vec)
  next
    fix i assume "i < length ?mu"
    then have i: "i < N" using assms(3) lenK by (simp add: length_mat_vec)
    then show "?mu ! i = map (network_mean N tau_m K J j nu_ext K_ext nu) [0..<N] ! i"
      using assms(3) lenK
      by (simp add: length_mat_vec network_mean_def mat_vec_nth [OF assms(1,2,4) i])
  qed
  have var: "?var = map (network_variance N tau_m K J j nu_ext K_ext nu) [0..<N]"
  proof (rule nth_equalityI)
    show "length ?var = length (map (network_variance N tau_m K J j nu_ext K_ext nu) [0..<N])"
      using assms(3) lenK by (simp add: length_mat_vec)
  next
    fix i assume "i < length ?var"
    then have i: "i < N" using assms(3) lenK by (simp add: length_mat_vec)
    then show "?var ! i = map (network_variance N tau_m K J j nu_ext K_ext nu) [0..<N] ! i"
      using assms(3) lenK
      by (simp add: length_mat_vec network_variance_def mat_vec_nth [OF assms(1,2,4) i])
  qed
  have "map2 (nu0_fb433 L tau_m tau_s tau_r V_th_rel V_0_rel) ?mu (map sqrt ?var) =
          map (\<lambda>i. nu0_fb433 L tau_m tau_s tau_r V_th_rel V_0_rel
                        (network_mean N tau_m K J j nu_ext K_ext nu i)
                        (sqrt (network_variance N tau_m K J j nu_ext K_ext nu i))) [0..<N]"
    unfolding mu var by (intro nth_equalityI) simp_all
  then show ?thesis
    by (simp add: get_rate_difference_def candidate_rates_def Let_def)
qed

lemma candidate_rates_length:
  "candidate_rates L N tau_m tau_s tau_r V_0_rel V_th_rel K J j nu_ext K_ext nu = Some c
     \<Longrightarrow> length c = N"
  by (auto simp: candidate_rates_def dest: those_length)

text \<open>One round of the loop body computes the update of the specification.\<close>

lemma loop_step_update:
  assumes "is_matrix N N K" and "is_matrix N N J" and "length K_ext = N" and "length nu = N"
  shows "map_option (\<lambda>delta_y. map2 (\<lambda>a d. a + d * (5 / 100)) nu delta_y)
           (get_rate_difference L tau_m tau_s tau_r V_0_rel V_th_rel K J j nu_ext K_ext nu)
         = relaxation_update L N tau_m tau_s tau_r V_0_rel V_th_rel K J j nu_ext K_ext nu"
proof (cases "candidate_rates L N tau_m tau_s tau_r V_0_rel V_th_rel K J j nu_ext K_ext nu")
  case None
  then show ?thesis
    by (simp add: get_rate_difference_candidate [OF assms] relaxation_update_def)
next
  case (Some c)
  from candidate_rates_length [OF Some] have c: "length c = N" .
  have eq: "map2 (\<lambda>a d. a + d * (5 / 100)) nu (map2 (\<lambda>a b. - a + b) nu c)
          = map (\<lambda>i. nu ! i + 5 / 100 * (c ! i - nu ! i)) [0..<N]"
    using assms(4) c by (intro nth_equalityI) simp_all
  have G: "get_rate_difference L tau_m tau_s tau_r V_0_rel V_th_rel K J j nu_ext K_ext nu
             = Some (map2 (\<lambda>a b. - a + b) nu c)"
    unfolding get_rate_difference_candidate [OF assms] Some by (simp only: option.case)
  have R: "relaxation_update L N tau_m tau_s tau_r V_0_rel V_th_rel K J j nu_ext K_ext nu
             = Some (map (\<lambda>i. nu ! i + 5 / 100 * (c ! i - nu ! i)) [0..<N])"
    unfolding relaxation_update_def Some by (simp only: option.case)
  show ?thesis unfolding G R by (simp only: option.map eq)
qed

lemma relaxation_update_length:
  "relaxation_update L N tau_m tau_s tau_r V_0_rel V_th_rel K J j nu_ext K_ext nu = Some nu'
     \<Longrightarrow> length nu' = N"
  by (auto simp: relaxation_update_def split: option.splits)

lemma loop_eps_max_change:
  assumes "length nu = N" and "length nu' = N"
  shows "map abs (map2 (-) nu' nu) = map (\<lambda>i. \<bar>nu' ! i - nu ! i\<bar>) [0..<N]"
    and "Max (set (map abs (map2 (-) nu' nu))) = max_change N nu nu'"
proof -
  show eq: "map abs (map2 (-) nu' nu) = map (\<lambda>i. \<bar>nu' ! i - nu ! i\<bar>) [0..<N]"
    using assms by (intro nth_equalityI) simp_all
  show "Max (set (map abs (map2 (-) nu' nu))) = max_change N nu nu'"
    unfolding eq max_change_def by (simp add: atLeast0LessThan)
qed


section \<open>The loop of the fixed-point iteration\<close>

lemma firing_rates_loop_exit:
  "e < 1 / 10 ^ 5 \<Longrightarrow> firing_rates_loop grd y0 y1 e = Some (Inr y1)"
  by (subst firing_rates_loop.simps) simp

lemma firing_rates_loop_round:
  assumes "1 / 10 ^ 5 \<le> e" and "grd y0 = Some delta_y"
    and "map2 (\<lambda>a d. a + d * (5 / 100)) y0 delta_y = nu'"
    and "length y0 = N" and "length nu' = N" and "0 < N"
  shows "firing_rates_loop grd y0 y1 e = firing_rates_loop grd nu' nu' (max_change N y0 nu')"
proof -
  have ne: "(map2 (-) nu' y0 = []) = False" using assms(4,5,6) by (cases nu'; cases y0) auto
  have c: "(e \<ge> 1 / 10 ^ 5) = True" using assms(1) by simp
  show ?thesis
    by (subst firing_rates_loop.simps)
       (simp only: c if_True assms(2) option.case Let_def assms(3) ne if_False
          loop_eps_max_change(2) [OF assms(4,5)])
qed

lemma loop_from_relaxation:
  assumes step: "\<And>nu. length nu = N \<Longrightarrow>
        map_option (\<lambda>delta_y. map2 (\<lambda>a d. a + d * (5 / 100)) nu delta_y) (grd nu) = upd nu"
    and len: "\<And>nu nu'. upd nu = Some nu' \<Longrightarrow> length nu' = N"
    and N: "0 < N"
  shows "relaxation N upd fuel nu = Some y \<Longrightarrow> length nu = N \<Longrightarrow> 1 / 10 ^ 5 \<le> e
           \<Longrightarrow> firing_rates_loop grd nu y1 e = Some (Inr y)"
proof (induction fuel arbitrary: nu y1 e)
  case 0
  then show ?case by simp
next
  case (Suc fuel)
  from Suc.prems(1) obtain nu' where upd: "upd nu = Some nu'"
    by (auto split: option.splits)
  from len [OF upd] have l': "length nu' = N" .
  from step [OF Suc.prems(2)] upd obtain delta_y where g: "grd nu = Some delta_y"
    and nu': "map2 (\<lambda>a d. a + d * (5 / 100)) nu delta_y = nu'"
    by (cases "grd nu") auto
  note round = firing_rates_loop_round
                 [where grd = grd and ?y0.0 = nu and ?y1.0 = y1, OF Suc.prems(3) g nu' Suc.prems(2) l' N]
  show ?case
  proof (cases "max_change N nu nu' < 1 / 10 ^ 5")
    case True
    with Suc.prems(1) upd have "y = nu'" by simp
    with True show ?thesis by (simp add: round firing_rates_loop_exit)
  next
    case False
    with Suc.prems(1) upd have "relaxation N upd fuel nu' = Some y" by simp
    from Suc.IH [OF this l'] False show ?thesis by (simp add: round)
  qed
qed

lemma relaxation_from_loop:
  assumes "firing_rates_loop grd y0 y1 e = Some r"
  shows "(\<forall>nu. length nu = N \<longrightarrow>
            map_option (\<lambda>delta_y. map2 (\<lambda>a d. a + d * (5 / 100)) nu delta_y) (grd nu) = upd nu) \<longrightarrow>
         (\<forall>nu nu'. upd nu = Some nu' \<longrightarrow> length nu' = N) \<longrightarrow> 0 < N \<longrightarrow> length y0 = N \<longrightarrow>
         (if 1 / 10 ^ 5 \<le> e
          then \<forall>y. r = Inr y \<longrightarrow> (\<exists>fuel. relaxation N upd fuel y0 = Some y)
          else r = Inr y1)"
proof (induction rule: firing_rates_loop.raw_induct [OF _ assms])
  case (1 loop grd y0 y1 e r)
  show ?case
  proof (intro impI)
    assume step: "\<forall>nu. length nu = N \<longrightarrow>
            map_option (\<lambda>delta_y. map2 (\<lambda>a d. a + d * (5 / 100)) nu delta_y) (grd nu) = upd nu"
      and len: "\<forall>nu nu'. upd nu = Some nu' \<longrightarrow> length nu' = N"
      and N: "0 < N" and l0: "length y0 = N"
    show "if 1 / 10 ^ 5 \<le> e
          then \<forall>y. r = Inr y \<longrightarrow> (\<exists>fuel. relaxation N upd fuel y0 = Some y)
          else r = Inr y1"
    proof (cases "1 / 10 ^ 5 \<le> e")
      case False
      with 1(2) show ?thesis by simp
    next
      case True
      with 1(2) obtain delta_y where g: "grd y0 = Some delta_y"
        by (auto split: option.splits)
      define nu' where "nu' = map2 (\<lambda>a d. a + d * (5 / 100)) y0 delta_y"
      from step l0 g have upd: "upd y0 = Some nu'"
        by (auto simp: nu'_def)
      with len have l': "length nu' = N" by blast
      have ne: "(map2 (-) nu' y0 = []) = False" using l0 l' N by (cases nu'; cases y0) auto
      have c: "(e \<ge> 1 / 10 ^ 5) = True" using True by simp
      from 1(2)
      have rec: "loop grd nu' nu' (max_change N y0 nu') = Some r"
        by (simp only: c if_True g option.case Let_def nu'_def [symmetric] ne if_False
              loop_eps_max_change(2) [OF l0 l'])
      from 1(1) [OF rec] step len N l'
      have IH: "if 1 / 10 ^ 5 \<le> max_change N y0 nu'
                then \<forall>y. r = Inr y \<longrightarrow> (\<exists>fuel. relaxation N upd fuel nu' = Some y)
                else r = Inr nu'"
        by blast
      have "\<exists>fuel. relaxation N upd fuel y0 = Some y" if r: "r = Inr y" for y
      proof (cases "1 / 10 ^ 5 \<le> max_change N y0 nu'")
        case big: True
        with IH r obtain fuel where "relaxation N upd fuel nu' = Some y" by auto
        with big upd have "relaxation N upd (Suc fuel) y0 = Some y" by simp
        then show ?thesis ..
      next
        case small: False
        with IH r have "y = nu'" by simp
        with small upd have "relaxation N upd (Suc 0) y0 = Some y" by simp
        then show ?thesis ..
      qed
      with True show ?thesis by simp
    qed
  qed
qed


section \<open>A two-population network with reset at the threshold\<close>

text \<open>
  When the reset potential equals the threshold, both integrands vanish, the bracket
  searches end at once and the neuron fires once per refractory period: the rate is
  \<open>1 / \<tau>r\<close> outside the overflow guard of branch A and 0 under it. For a network of such
  populations the whole run of \<open>firing_rates\<close> can be followed round by round; which of
  the two rates a population gets in a round is decided by its recurrent input.
\<close>

lemma siegert1_integrand_same: "siegert1_integrand y y = (\<lambda>u. 0)"
  by (rule ext) (simp add: siegert1_integrand_def)

lemma siegert2_integrand_same: "siegert2_integrand y y = (\<lambda>u. 0)"
  by (rule ext) (simp add: siegert2_integrand_def)

lemma siegert1_lower_null: "siegert1_lower (\<lambda>u. 0) y 1 = Some y"
proof -
  have "siegert1_lower (\<lambda>u. 0) y 0 = Some y"
    by (rule siegert1_lower_done) simp
  then show ?thesis
    by (simp add: siegert1_lower.simps [of "\<lambda>u. 0" y 1])
qed

lemma siegert1_upper_null: "siegert1_upper (\<lambda>u. 0) y 1 = Some y"
proof -
  have "siegert1_upper (\<lambda>u. 0) y 0 = Some y"
    by (rule siegert1_upper_done) simp
  then show ?thesis
    by (simp add: siegert1_upper.simps [of "\<lambda>u. 0" y 1])
qed

lemma siegert2_upper_null: "siegert2_upper (\<lambda>u. 0) 1 1 = Some 2"
proof -
  have "siegert2_upper (\<lambda>u. 0) (1 * 2) 0 = Some (1 * 2)"
    by (rule siegert2_upper_done) simp
  then show ?thesis
    by (simp add: siegert2_upper.simps [of "\<lambda>u. 0" 1 1])
qed

lemma nu_0_reset_at_threshold:
  "nu_0 sample_lib tau_m tau_r V V mu sigma =
     Some (if mu \<le> V + (95 / 100 * \<bar>V\<bar> - \<bar>V\<bar>) \<and> 20 \<le> (V - mu) / sigma then 0 else 1 / tau_r)"
  by (simp add: nu_0_def siegert1_def siegert2_def Let_def siegert1_integrand_same
        siegert2_integrand_same siegert1_lower_null siegert1_upper_null siegert2_upper_null
        quad_sample)

lemma nu0_fb433_reset_at_threshold:
  "nu0_fb433 sample_lib tau_m tau_s tau_r V V mu sigma =
     Some (if mu \<le> V + (95 / 100 * \<bar>V\<bar> - \<bar>V\<bar>) \<and> 20 \<le> (V - mu) / sigma then 0 else 1 / tau_r)"
  unfolding nu0_fb433_def Let_def nu_0_reset_at_threshold by simp


lemma sum_lessThan_2_real: "(\<Sum>k<(2 :: nat). f k) = f 0 + (f 1 :: real)"
  by (simp add: numeral_2_eq_2 lessThan_Suc)

lemma guard_not_reached:
  assumes "3 \<le> mu" and "4 \<le> var"
  shows "\<not> 20 \<le> (15 - mu) / sqrt var"
proof -
  have "2\<^sup>2 \<le> var" using assms(2) by simp
  then have s: "2 \<le> sqrt var" by (rule real_le_rsqrt)
  then have "15 - mu < 20 * sqrt var" using assms(1) by linarith
  moreover have "0 < sqrt var" using s by linarith
  ultimately have "(15 - mu) / sqrt var < 20"
    by (simp only: pos_divide_less_eq)
  then show ?thesis by linarith
qed

text \<open>
  The network of the example has \<open>\<tau>m = 10 ms\<close>, \<open>\<tau>s = 0.5 ms\<close>, \<open>\<tau>r = 2 ms\<close>,
  \<open>V_0 = V_th = 15 mV\<close>, in-degrees \<open>K = [[1, 100], [10, 5]]\<close>, weights
  \<open>J = [[0.1, -1], [0.1, -0.2]]\<close>, \<open>j = 0.5\<close>, \<open>\<nu>_ext = 100\<close> and \<open>K_ext = [16, 16]\<close>.
  The first population receives strong inhibition from the second: its mean input is
  \<open>a / 1000 - b + 8\<close> and its variance \<open>a / 10000 + b + 4\<close> at the rates \<open>a\<close> and \<open>b\<close>. While
  the rate of the second population is at most 388, the first stays outside the overflow
  guard; from 392 on, the guard applies and its candidate rate is 0.
\<close>

lemma guard_off:
  assumes "0 \<le> a" and "0 \<le> b" and "b \<le> 388"
  shows "\<not> 20 \<le> (15 - (a / 1000 - b + 8)) / sqrt (a / 10000 + b + 4)"
proof -
  have "b * (b - 386) \<le> 388 * 2"
  proof (cases "b \<le> 386")
    case True
    then have "b * (b - 386) \<le> 0" using assms(2) by (simp add: mult_nonneg_nonpos)
    then show ?thesis by linarith
  next
    case False
    then have "b * (b - 386) \<le> 388 * 2"
      using assms(2,3) by (intro mult_mono) simp_all
    then show ?thesis .
  qed
  then have "((7 + b) / 20)\<^sup>2 < b + 4"
    by (simp add: power2_eq_square field_simps)
  then have "(7 + b) / 20 < sqrt (b + 4)" by (rule real_less_rsqrt)
  also have "sqrt (b + 4) \<le> sqrt (a / 10000 + b + 4)" using assms(1) by simp
  finally have "15 - (a / 1000 - b + 8) < 20 * sqrt (a / 10000 + b + 4)"
    using assms(1) by (simp add: field_simps)
  moreover have "0 < sqrt (a / 10000 + b + 4)" using assms(1,2) by simp
  ultimately have "(15 - (a / 1000 - b + 8)) / sqrt (a / 10000 + b + 4) < 20"
    by (simp only: pos_divide_less_eq)
  then show ?thesis by linarith
qed

lemma guard_on:
  assumes "0 \<le> a" and "a \<le> 500" and "392 \<le> b"
  shows "20 \<le> (15 - (a / 1000 - b + 8)) / sqrt (a / 10000 + b + 4)"
proof -
  have "392 * 5 \<le> b * (b - 387)"
    using assms(3) by (intro mult_mono) simp_all
  then have "b + 405 / 100 \<le> ((65 / 10 + b) / 20)\<^sup>2"
    by (simp add: power2_eq_square field_simps)
  moreover have "a / 10000 + b + 4 \<le> b + 405 / 100" using assms(2) by simp
  ultimately have "a / 10000 + b + 4 \<le> ((65 / 10 + b) / 20)\<^sup>2" by linarith
  moreover have "0 \<le> (65 / 10 + b) / 20" using assms(3) by simp
  ultimately have "sqrt (a / 10000 + b + 4) \<le> (65 / 10 + b) / 20"
    by (intro real_le_lsqrt) simp_all
  then have "20 * sqrt (a / 10000 + b + 4) \<le> 15 - (a / 1000 - b + 8)"
    using assms(2) by (simp add: field_simps)
  moreover have "0 < sqrt (a / 10000 + b + 4)" using assms(1,3) by simp
  ultimately show ?thesis
    by (simp only: pos_le_divide_eq)
qed

lemma switching_update:
  assumes "0 \<le> a" "a \<le> 500" "0 \<le> b" "b \<le> 500"
  shows "relaxation_update sample_lib 2 (1 / 100) (1 / 2000) (2 / 1000) 15 15
           [[1, 100], [10, 5]] [[1 / 10, - 1], [1 / 10, - (1 / 5)]] (1 / 2) 100 [16, 16] [a, b]
         = Some [a + 5 / 100 *
                       ((if 20 \<le> (15 - (a / 1000 - b + 8)) / sqrt (a / 10000 + b + 4)
                         then 0 else 500) - a),
                 b + 5 / 100 * (500 - b)]"
proof -
  let ?mean = "network_mean 2 (1 / 100) [[1, 100], [10, 5]]
                 [[1 / 10, - 1], [1 / 10, - (1 / 5)]] (1 / 2) 100 [16, 16] [a, b]"
  let ?var = "network_variance 2 (1 / 100) [[1, 100], [10, 5]]
                [[1 / 10, - 1], [1 / 10, - (1 / 5)]] (1 / 2) 100 [16, 16] [a, b]"
  have mean: "?mean 0 = a / 1000 - b + 8" "?mean 1 = (a - b) / 100 + 8"
    by (simp_all add: network_mean_def sum_lessThan_2_real)
  have var: "?var 0 = a / 10000 + b + 4" "?var 1 = (a / 10 + b / 5) / 100 + 4"
    by (simp_all add: network_variance_def sum_lessThan_2_real power2_eq_square)
  have "3 \<le> (a - b) / 100 + 8" "4 \<le> (a / 10 + b / 5) / 100 + 4"
    using assms by (simp_all add: field_simps)
  then have g: "\<not> 20 \<le> (15 - ((a - b) / 100 + 8)) / sqrt ((a / 10 + b / 5) / 100 + 4)"
    by (rule guard_not_reached)
  have cut: "a / 1000 - b + 8 \<le> 15 + (95 / 100 * \<bar>15\<bar> - \<bar>15 :: real\<bar>)"
    using assms by simp
  have rate0: "nu0_fb433 sample_lib (1 / 100) (1 / 2000) (2 / 1000) 15 15
                (a / 1000 - b + 8) (sqrt (a / 10000 + b + 4))
               = Some (if 20 \<le> (15 - (a / 1000 - b + 8)) / sqrt (a / 10000 + b + 4)
                       then 0 else 500)"
    unfolding nu0_fb433_reset_at_threshold using cut by simp
  have rate1: "nu0_fb433 sample_lib (1 / 100) (1 / 2000) (2 / 1000) 15 15
                ((a - b) / 100 + 8) (sqrt ((a / 10 + b / 5) / 100 + 4)) = Some 500"
    unfolding nu0_fb433_reset_at_threshold using g by simp
  have c: "candidate_rates sample_lib 2 (1 / 100) (1 / 2000) (2 / 1000) 15 15
             [[1, 100], [10, 5]] [[1 / 10, - 1], [1 / 10, - (1 / 5)]] (1 / 2) 100 [16, 16] [a, b]
           = Some [if 20 \<le> (15 - (a / 1000 - b + 8)) / sqrt (a / 10000 + b + 4)
                   then 0 else 500, 500]"
    unfolding candidate_rates_def upt_2 list.map mean var rate0 rate1 by simp
  show ?thesis
    unfolding relaxation_update_def c option.case upt_2 by simp
qed

lemma switching_rising:
  assumes "0 \<le> a" "a \<le> 500" "0 \<le> b" "b \<le> 388"
  shows "relaxation_update sample_lib 2 (1 / 100) (1 / 2000) (2 / 1000) 15 15
           [[1, 100], [10, 5]] [[1 / 10, - 1], [1 / 10, - (1 / 5)]] (1 / 2) 100 [16, 16] [a, b]
         = Some [a + 5 / 100 * (500 - a), b + 5 / 100 * (500 - b)]"
proof -
  have "b \<le> 500" using assms(4) by simp
  from switching_update [OF assms(1,2,3) this] guard_off [OF assms(1,3,4)]
  show ?thesis by (simp only: if_False)
qed

lemma switching_falling:
  assumes "0 \<le> a" "a \<le> 500" "392 \<le> b" "b \<le> 500"
  shows "relaxation_update sample_lib 2 (1 / 100) (1 / 2000) (2 / 1000) 15 15
           [[1, 100], [10, 5]] [[1 / 10, - 1], [1 / 10, - (1 / 5)]] (1 / 2) 100 [16, 16] [a, b]
         = Some [a + 5 / 100 * (0 - a), b + 5 / 100 * (500 - b)]"
proof -
  have "0 \<le> b" using assms(3) by simp
  from switching_update [OF assms(1,2) this assms(4)] guard_on [OF assms(1,2,3)]
  show ?thesis by (simp only: if_True)
qed


text \<open>
  The run of the relaxation on this network, with \<open>q = 19 / 20\<close>. For the first 30 rounds
  both rates rise as \<open>500 \<cdot> (1 - q\<^sup>k)\<close>. Then the inhibition has pushed the first population
  under the overflow guard: its rate decays as \<open>c \<cdot> q\<^sup>d\<close> with \<open>c = 500 \<cdot> (1 - q\<^sup>3\<^sup>0)\<close>,
  while the second keeps rising. The largest change of a round is \<open>25 \<cdot> q\<^sup>k\<close> in the first
  phase and \<open>c / 20 \<cdot> q\<^sup>d\<close> in the second; it is below \<open>1e-5\<close> for the first time in round
  \<open>d = 283\<close> of the second phase, the 314th round in all.
\<close>

lemma max_change_2:
  "max_change 2 [a, b] [a', b'] = max \<bar>a' - a\<bar> \<bar>b' - b\<bar>"
proof -
  have "{..<(2 :: nat)} = {0, 1}" by auto
  then show ?thesis by (simp add: max_change_def)
qed

lemma rising_bounds:
  "0 \<le> 500 * (1 - (19 / 20 :: real) ^ k)" "500 * (1 - (19 / 20 :: real) ^ k) \<le> 500"
proof -
  have "0 \<le> (19 / 20 :: real) ^ k" "(19 / 20 :: real) ^ k \<le> 1"
    by (simp_all add: power_le_one)
  then show "0 \<le> 500 * (1 - (19 / 20 :: real) ^ k)" "500 * (1 - (19 / 20 :: real) ^ k) \<le> 500"
    by simp_all
qed

lemma rising_step:
  "500 * (1 - (19 / 20) ^ k) + 5 / 100 * (500 - 500 * (1 - (19 / 20) ^ k))
     = 500 * (1 - (19 / 20 :: real) ^ Suc k)"
  by (simp add: algebra_simps)

lemma rising_change:
  "\<bar>500 * (1 - (19 / 20) ^ Suc k) - 500 * (1 - (19 / 20 :: real) ^ k)\<bar> = 25 * (19 / 20) ^ k"
proof -
  have "500 * (1 - (19 / 20) ^ Suc k) - 500 * (1 - (19 / 20 :: real) ^ k) = 25 * (19 / 20) ^ k"
    by (simp add: algebra_simps)
  moreover have "0 \<le> 25 * (19 / 20 :: real) ^ k" by simp
  ultimately show ?thesis by simp
qed

lemma switching_powers:
  "224 / 1000 \<le> (19 / 20 :: real) ^ 29" "(19 / 20 :: real) ^ 30 \<le> 216 / 1000"
  by (simp_all add: power_divide)

lemma first_phase_round:
  assumes "k < 30"
  shows "relaxation_update sample_lib 2 (1 / 100) (1 / 2000) (2 / 1000) 15 15
           [[1, 100], [10, 5]] [[1 / 10, - 1], [1 / 10, - (1 / 5)]] (1 / 2) 100 [16, 16]
           [500 * (1 - (19 / 20) ^ k), 500 * (1 - (19 / 20) ^ k)]
         = Some [500 * (1 - (19 / 20) ^ Suc k), 500 * (1 - (19 / 20) ^ Suc k)]"
proof -
  from assms have "k \<le> 29" by simp
  then have "(19 / 20 :: real) ^ 29 \<le> (19 / 20) ^ k"
    by (intro power_decreasing) simp_all
  with switching_powers(1) have "224 / 1000 \<le> (19 / 20 :: real) ^ k" by (rule order_trans)
  then have "500 * (1 - (19 / 20 :: real) ^ k) \<le> 388" by simp
  from switching_rising [OF rising_bounds rising_bounds(1) this]
  show ?thesis unfolding rising_step .
qed

lemma second_phase_round:
  assumes "0 \<le> c" and "c \<le> 500"
  shows "relaxation_update sample_lib 2 (1 / 100) (1 / 2000) (2 / 1000) 15 15
           [[1, 100], [10, 5]] [[1 / 10, - 1], [1 / 10, - (1 / 5)]] (1 / 2) 100 [16, 16]
           [c * (19 / 20) ^ d, 500 * (1 - (19 / 20) ^ (30 + d))]
         = Some [c * (19 / 20) ^ Suc d, 500 * (1 - (19 / 20) ^ Suc (30 + d))]"
proof -
  have q: "0 \<le> (19 / 20 :: real) ^ d" "(19 / 20 :: real) ^ d \<le> 1"
    by (simp_all add: power_le_one)
  have a: "0 \<le> c * (19 / 20) ^ d" using assms(1) by simp
  have "c * (19 / 20) ^ d \<le> 500 * 1"
    using assms q by (intro mult_mono) simp_all
  then have a': "c * (19 / 20) ^ d \<le> 500" by simp
  have "(19 / 20 :: real) ^ (30 + d) \<le> (19 / 20) ^ 30"
    by (intro power_decreasing) simp_all
  then have "(19 / 20 :: real) ^ (30 + d) \<le> 216 / 1000"
    using switching_powers(2) by (rule order_trans)
  then have b: "392 \<le> 500 * (1 - (19 / 20 :: real) ^ (30 + d))" by simp
  have decay: "c * (19 / 20) ^ d + 5 / 100 * (0 - c * (19 / 20) ^ d) = c * (19 / 20) ^ Suc d"
    by (simp add: algebra_simps)
  from switching_falling [OF a a' b rising_bounds(2)]
  show ?thesis unfolding rising_step decay .
qed

lemma second_phase_change:
  assumes "25 * (19 / 20) ^ 30 \<le> c / 20"
  shows "max_change 2 [c * (19 / 20) ^ d, 500 * (1 - (19 / 20) ^ (30 + d))]
           [c * (19 / 20) ^ Suc d, 500 * (1 - (19 / 20) ^ Suc (30 + d))]
         = c / 20 * (19 / 20) ^ d"
proof -
  have c: "0 \<le> c / 20"
  proof -
    have "0 \<le> 25 * (19 / 20 :: real) ^ 30" by simp
    with assms show ?thesis by linarith
  qed
  have "c * (19 / 20) ^ Suc d - c * (19 / 20) ^ d = - (c / 20 * (19 / 20) ^ d)"
    by (simp add: algebra_simps)
  moreover have "0 \<le> c / 20 * (19 / 20) ^ d" using c by simp
  ultimately have first: "\<bar>c * (19 / 20) ^ Suc d - c * (19 / 20) ^ d\<bar> = c / 20 * (19 / 20) ^ d"
    by simp
  have "25 * (19 / 20 :: real) ^ (30 + d) = 25 * (19 / 20) ^ 30 * (19 / 20) ^ d"
    by (simp add: power_add)
  also have "\<dots> \<le> c / 20 * (19 / 20) ^ d"
    using assms by (intro mult_right_mono) simp_all
  finally have "25 * (19 / 20 :: real) ^ (30 + d) \<le> c / 20 * (19 / 20) ^ d" .
  then show ?thesis
    unfolding max_change_2 first rising_change by simp
qed

lemma second_phase_run:
  assumes "0 \<le> c" and "c \<le> 500" and "25 * (19 / 20) ^ 30 \<le> c / 20"
    and "c / 20 * (19 / 20) ^ 283 < 1 / 10 ^ 5" and "1 / 10 ^ 5 \<le> c / 20 * (19 / 20) ^ 282"
    and "d + e = 283"
  shows "relaxation 2
           (relaxation_update sample_lib 2 (1 / 100) (1 / 2000) (2 / 1000) 15 15
              [[1, 100], [10, 5]] [[1 / 10, - 1], [1 / 10, - (1 / 5)]] (1 / 2) 100 [16, 16])
           (Suc e) [c * (19 / 20) ^ d, 500 * (1 - (19 / 20) ^ (30 + d))]
         = Some [c * (19 / 20) ^ 284, 500 * (1 - (19 / 20) ^ 314)]"
  using assms(6)
proof (induction e arbitrary: d)
  case 0
  then have d: "d = 283" by simp
  have n: "Suc 283 = 284" "Suc (30 + 283) = 314" by simp_all
  have "relaxation 2
          (relaxation_update sample_lib 2 (1 / 100) (1 / 2000) (2 / 1000) 15 15
             [[1, 100], [10, 5]] [[1 / 10, - 1], [1 / 10, - (1 / 5)]] (1 / 2) 100 [16, 16])
          (Suc 0) [c * (19 / 20) ^ 283, 500 * (1 - (19 / 20) ^ (30 + 283))]
        = Some [c * (19 / 20) ^ Suc 283, 500 * (1 - (19 / 20) ^ Suc (30 + 283))]"
    unfolding relaxation.simps second_phase_round [OF assms(1,2)] option.case
      second_phase_change [OF assms(3)]
    using assms(4) by (simp only: if_True)
  then show ?case
    unfolding d by (simp only: n)
next
  case (Suc e)
  then have "d \<le> 282" by simp
  then have "(19 / 20 :: real) ^ 282 \<le> (19 / 20) ^ d"
    by (intro power_decreasing) simp_all
  moreover have "0 \<le> c / 20" using assms(1) by simp
  ultimately have "c / 20 * (19 / 20) ^ 282 \<le> c / 20 * (19 / 20) ^ d"
    by (intro mult_left_mono)
  with assms(5) have big: "\<not> c / 20 * (19 / 20) ^ d < 1 / 10 ^ 5" by linarith
  from Suc.prems have "Suc d + e = 283" by simp
  from Suc.IH [OF this] have
    "relaxation 2
       (relaxation_update sample_lib 2 (1 / 100) (1 / 2000) (2 / 1000) 15 15
          [[1, 100], [10, 5]] [[1 / 10, - 1], [1 / 10, - (1 / 5)]] (1 / 2) 100 [16, 16])
       (Suc e) [c * (19 / 20) ^ Suc d, 500 * (1 - (19 / 20) ^ Suc (30 + d))]
     = Some [c * (19 / 20) ^ 284, 500 * (1 - (19 / 20) ^ 314)]"
    by (simp only: add_Suc_right)
  with big show ?case
    unfolding relaxation.simps(2) [of _ _ "Suc e"] second_phase_round [OF assms(1,2)] option.case
      second_phase_change [OF assms(3)]
    by (simp only: if_False)
qed

lemma switching_tolerance:
  "25 * (19 / 20) ^ 30 \<le> 500 * (1 - (19 / 20 :: real) ^ 30) / 20"
  "500 * (1 - (19 / 20 :: real) ^ 30) / 20 * (19 / 20) ^ 283 < 1 / 10 ^ 5"
  "1 / 10 ^ 5 \<le> 500 * (1 - (19 / 20 :: real) ^ 30) / 20 * (19 / 20) ^ 282"
  "1 / 10 ^ 5 \<le> 25 * (19 / 20 :: real) ^ 29"
  by (simp_all add: power_divide)

lemma first_phase_run:
  assumes "k + m = 30"
  shows "relaxation 2
           (relaxation_update sample_lib 2 (1 / 100) (1 / 2000) (2 / 1000) 15 15
              [[1, 100], [10, 5]] [[1 / 10, - 1], [1 / 10, - (1 / 5)]] (1 / 2) 100 [16, 16])
           (m + 284) [500 * (1 - (19 / 20) ^ k), 500 * (1 - (19 / 20) ^ k)]
         = Some [500 * (1 - (19 / 20) ^ 30) * (19 / 20) ^ 284, 500 * (1 - (19 / 20) ^ 314)]"
  using assms
proof (induction m arbitrary: k)
  case 0
  then have k: "k = 30" by simp
  have "relaxation 2
          (relaxation_update sample_lib 2 (1 / 100) (1 / 2000) (2 / 1000) 15 15
             [[1, 100], [10, 5]] [[1 / 10, - 1], [1 / 10, - (1 / 5)]] (1 / 2) 100 [16, 16])
          (Suc 283) [500 * (1 - (19 / 20) ^ 30) * (19 / 20) ^ 0, 500 * (1 - (19 / 20) ^ (30 + 0))]
        = Some [500 * (1 - (19 / 20) ^ 30) * (19 / 20) ^ 284, 500 * (1 - (19 / 20) ^ 314)]"
    by (rule second_phase_run [OF rising_bounds switching_tolerance(1,2,3)]) simp
  moreover have "Suc 283 = 284" by simp
  ultimately show ?case
    unfolding k by (simp only: power_0 mult_1_right add_0_right add_0)
next
  case (Suc m)
  then have k: "k < 30" by simp
  then have "k \<le> 29" by simp
  then have "(19 / 20 :: real) ^ 29 \<le> (19 / 20) ^ k"
    by (intro power_decreasing) simp_all
  with switching_tolerance(4) have big: "\<not> 25 * (19 / 20 :: real) ^ k < 1 / 10 ^ 5"
    by linarith
  from Suc.prems have "Suc k + m = 30" by simp
  from Suc.IH [OF this] big show ?case
    unfolding add_Suc relaxation.simps(2) [of _ _ "m + 284"] first_phase_round [OF k] option.case
      max_change_2 rising_change max.idem
    by (simp only: if_False)
qed


section \<open>Claims about the fixed-point iteration\<close>

text \<open>
  Claim C2. \<open>firing_rates\<close> initialises the rate vector to zero and repeats the relaxation
  update \<open>\<nu> \<leftarrow> \<nu> + 0.05\<cdot>(candidate - \<nu>)\<close>, where the candidate maps every \<open>(\<mu>_i, \<sigma>_i)\<close>,
  with \<open>\<mu> = (K\<circ>J)\<cdot>\<nu>\<cdot>\<tau>m + j\<cdot>K_ext\<cdot>\<nu>_ext\<cdot>\<tau>m\<close> and
  \<open>\<sigma>\<^sup>2 = (K\<circ>J\<^sup>2)\<cdot>\<nu>\<cdot>\<tau>m + j\<^sup>2\<cdot>K_ext\<cdot>\<nu>_ext\<cdot>\<tau>m\<close>, through the filtered stationary-rate
  function; the loop ends exactly when the maximum absolute step-to-step change of the rate
  vector drops below \<open>1e-5\<close>. For at least one population and operands of the shapes of the
  data model: \<open>firing_rates\<close> returns the vector \<open>y\<close> if and only if the relaxation of the
  specification, started at the zero vector, stops with \<open>y\<close> after some number of rounds.
\<close>

theorem firing_rates_relaxation:
  assumes "0 < N" and "is_matrix N N K" and "is_matrix N N J" and "length K_ext = N"
  shows "firing_rates L N tau_m tau_s tau_r V_0_rel V_th_rel K J j nu_ext K_ext = Some (Inr y)
         \<longleftrightarrow> (\<exists>fuel. relaxation N
                        (relaxation_update L N tau_m tau_s tau_r V_0_rel V_th_rel K J j nu_ext K_ext)
                        fuel (replicate N 0) = Some y)"
proof
  let ?grd = "get_rate_difference L tau_m tau_s tau_r V_0_rel V_th_rel K J j nu_ext K_ext"
  let ?upd = "relaxation_update L N tau_m tau_s tau_r V_0_rel V_th_rel K J j nu_ext K_ext"
  have step: "map_option (\<lambda>delta_y. map2 (\<lambda>a d. a + d * (5 / 100)) nu delta_y) (?grd nu) = ?upd nu"
    if "length nu = N" for nu
    by (rule loop_step_update [OF assms(2,3,4) that])
  have len: "length nu' = N" if "?upd nu = Some nu'" for nu nu'
    using that by (rule relaxation_update_length)
  have tol: "(1 :: real) / 10 ^ 5 \<le> 1" by simp
  {
    assume "firing_rates L N tau_m tau_s tau_r V_0_rel V_th_rel K J j nu_ext K_ext = Some (Inr y)"
    then have "firing_rates_loop ?grd (replicate N 0) (replicate N 0) 1 = Some (Inr y)"
      by (simp only: firing_rates_def)
    from relaxation_from_loop [OF this, of N ?upd] step len assms(1) tol
    show "\<exists>fuel. relaxation N ?upd fuel (replicate N 0) = Some y"
      by simp
  }
  {
    assume "\<exists>fuel. relaxation N ?upd fuel (replicate N 0) = Some y"
    then obtain fuel where "relaxation N ?upd fuel (replicate N 0) = Some y" ..
    from loop_from_relaxation [of N ?grd ?upd, OF step len assms(1) this _ tol]
    show "firing_rates L N tau_m tau_s tau_r V_0_rel V_th_rel K J j nu_ext K_ext = Some (Inr y)"
      by (simp add: firing_rates_def)
  }
qed

theorem firing_rates_relaxation_witness:
  "firing_rates sample_lib 2 (1 / 100) (1 / 2000) (2 / 1000) 15 15
     [[1, 100], [10, 5]] [[1 / 10, - 1], [1 / 10, - (1 / 5)]] (1 / 2) 100 [16, 16]
   = Some (Inr [500 * (1 - (19 / 20) ^ 30) * (19 / 20) ^ 284, 500 * (1 - (19 / 20) ^ 314)])"
proof -
  have zero: "[500 * (1 - (19 / 20) ^ 0), 500 * (1 - (19 / 20) ^ 0)] = replicate 2 (0 :: real)"
    by (simp add: numeral_2_eq_2)
  have start: "0 + 30 = (30 :: nat)" by simp
  have shapes: "0 < (2 :: nat)" "is_matrix 2 2 [[1, 100], [10, 5 :: real]]"
    "is_matrix 2 2 [[1 / 10, - 1], [1 / 10, - (1 / 5 :: real)]]" "length [16, 16 :: real] = 2"
    by (simp_all add: is_matrix_def)
  have run: "relaxation 2
          (relaxation_update sample_lib 2 (1 / 100) (1 / 2000) (2 / 1000) 15 15
             [[1, 100], [10, 5]] [[1 / 10, - 1], [1 / 10, - (1 / 5)]] (1 / 2) 100 [16, 16])
          (30 + 284) (replicate 2 0)
        = Some [500 * (1 - (19 / 20) ^ 30) * (19 / 20) ^ 284, 500 * (1 - (19 / 20) ^ 314)]"
    using first_phase_run [OF start] unfolding zero .
  show ?thesis
    by (rule firing_rates_relaxation [OF shapes, THEN iffD2], rule exI [of _ "30 + 284"], rule run)
qed


section \<open>Claims about the layout of the batch transfer function\<close>

lemma Psi_sample: "Psi sample_lib z x = z - of_real x"
proof -
  have "exp (25 / 100 * x ^ 2) * exp (- (25 / 100 * x ^ 2)) = (1 :: real)"
    by (simp add: exp_minus)
  then have "complex_of_real (exp (25 / 100 * x ^ 2)) * complex_of_real (exp (- (25 / 100 * x ^ 2))) = 1"
    by (metis of_real_mult of_real_1)
  then show ?thesis by (simp add: Psi_def sample_lib_def mult.assoc [symmetric])
qed

lemma Psi_x_r_sample: "Psi_x_r sample_lib z x y = of_real (y - x)"
  by (simp add: Psi_x_r_def Psi_sample)

lemma dPsi_x_r_sample: "dPsi_x_r sample_lib z x y = (1 / 2 + z) * of_real (y - x)"
proof -
  have "dPsi_x_r sample_lib z x y
          = (1 / 2 + z) * ((z + 1 - of_real x) - (z + 1 - of_real y))"
    by (simp only: dPsi_x_r_def d_Psi_def Psi_sample right_diff_distrib)
  then show ?thesis by simp
qed

lemma complex_ratio_cancel: "d \<noteq> 0 \<Longrightarrow> c * complex_of_real d / complex_of_real d = c"
  by simp

lemma sample_shift_bounds:
  "0 \<le> alpha sample_lib / 2 * sqrt ((1 / 2000) / (1 / 100))"
  "alpha sample_lib / 2 * sqrt ((1 / 2000) / (1 / 100)) \<le> 2"
proof -
  show "0 \<le> alpha sample_lib / 2 * sqrt ((1 / 2000) / (1 / 100))"
    by (simp add: alpha_sample)
  have "sqrt 2 * sqrt (1 / 20) = sqrt (2 * (1 / 20))" by (rule real_sqrt_mult [symmetric])
  also have "\<dots> \<le> 1" by simp
  finally have "sqrt 2 * sqrt (1 / 20) \<le> 1" .
  then have "146 / 100 / 2 * (sqrt 2 * sqrt (1 / 20)) \<le> 2" by simp
  then show "alpha sample_lib / 2 * sqrt ((1 / 2000) / (1 / 100)) \<le> 2"
    by (simp add: alpha_sample mult.commute mult.left_commute)
qed

text \<open>
  For a population with mean input 0 and a standard deviation of at least 1 mV, threshold
  15 mV and reset 0, the shifted threshold stays below the overflow guard, the stationary
  rate \<open>r\<close> is positive, and at a frequency \<open>\<omega>\<close> away from 0 the shift variant returns
  \<open>\<surd>2 / \<sigma> \<cdot> r / (1 + i\<omega>\<tau>m) \<cdot> i\<omega>\<tau>m\<close>.
\<close>

lemma sample_tf_entry:
  assumes "1 \<le> sigma" and "\<not> \<bar>omega\<bar> < 1 / 10 ^ 15"
  shows "\<exists>r. 0 < r \<and>
           transfer_function_1p_shift sample_lib 0 sigma (1 / 100) (1 / 2000) (2 / 1000) 15 0 omega
             = Some (Inr (of_real (sqrt 2 / sigma * r) / (1 + Complex 0 (omega * (1 / 100)))
                          * Complex 0 (omega * (1 / 100))))"
proof -
  define s where "s = alpha sample_lib / 2 * sqrt ((1 / 2000) / (1 / 100))"
  have s: "0 \<le> s" "s \<le> 2" unfolding s_def by (rule sample_shift_bounds)+
  have shift: "sigma * alpha sample_lib / 2 * sqrt ((1 / 2000) / (1 / 100)) = sigma * s"
    by (simp add: s_def)
  have sigma: "0 < sigma" using assms(1) by simp
  have ss: "0 \<le> sigma * s" using sigma s(1) by simp
  have guard: "(15 + sigma * s - 0) / sigma < 20"
  proof -
    have "15 / sigma \<le> 15 / 1" using assms(1) by (intro divide_left_mono) simp_all
    moreover have "(15 + sigma * s - 0) / sigma = 15 / sigma + s"
      using sigma by (simp add: field_simps)
    ultimately show ?thesis using s(2) by simp
  qed
  have "\<exists>I. siegert1_integral sample_lib (15 + sigma * s) (0 + sigma * s) 0 sigma = Some I \<and> 0 \<le> I \<and>
             (\<forall>tau_m tau_r. nu_0 sample_lib tau_m tau_r (15 + sigma * s) (0 + sigma * s) 0 sigma
                              = Some (1 / (tau_r + tau_m * I)))"
    using quad_nonneg_sample sigma
  proof (rule nu_0_below_guard)
    show "0 + sigma * s \<le> 15 + sigma * s" by simp
    show "0 < 15 + sigma * s" using ss by simp
    define p where "p = sigma * s"
    have "0 \<le> p" unfolding p_def by (rule ss)
    then have "0 \<le> 15 + p - 5 / 100 * \<bar>15 + p\<bar>" by simp
    then show "0 \<le> 15 + sigma * s - 5 / 100 * \<bar>15 + sigma * s\<bar>" unfolding p_def .
    show "(15 + sigma * s - 0) / sigma < 20" by (rule guard)
  qed
  then obtain I where I: "0 \<le> I"
    and nu: "nu_0 sample_lib (1 / 100) (2 / 1000) (15 + sigma * s) (0 + sigma * s) 0 sigma
               = Some (1 / (2 / 1000 + 1 / 100 * I))"
    by blast
  define r where "r = 1 / (2 / 1000 + 1 / 100 * I)"
  have r: "0 < r" unfolding r_def using I by simp
  have apart: "sqrt 2 * (0 + sigma * s - 0) / sigma - sqrt 2 * (15 + sigma * s - 0) / sigma \<noteq> 0"
  proof -
    have "sqrt 2 * (0 + sigma * s - 0) / sigma - sqrt 2 * (15 + sigma * s - 0) / sigma
            = - (sqrt 2 * 15 / sigma)"
      using sigma by (simp add: field_simps)
    then show ?thesis using sigma by simp
  qed
  have half: "1 / 2 + Complex (- (1 / 2)) (omega * (1 / 100)) = Complex 0 (omega * (1 / 100))"
    by (simp add: complex_eq_iff)
  have frac: "dPsi_x_r sample_lib (Complex (- (1 / 2)) (omega * (1 / 100)))
                (sqrt 2 * (15 + sigma * s - 0) / sigma) (sqrt 2 * (0 + sigma * s - 0) / sigma)
              / Psi_x_r sample_lib (Complex (- (1 / 2)) (omega * (1 / 100)))
                  (sqrt 2 * (15 + sigma * s - 0) / sigma) (sqrt 2 * (0 + sigma * s - 0) / sigma)
              = Complex 0 (omega * (1 / 100))"
    unfolding dPsi_x_r_sample Psi_x_r_sample half by (rule complex_ratio_cancel [OF apart])
  have "transfer_function_1p_shift sample_lib 0 sigma (1 / 100) (1 / 2000) (2 / 1000) 15 0 omega
          = Some (Inr (of_real (sqrt 2 / sigma * r) / (1 + Complex 0 (omega * (1 / 100)))
                       * Complex 0 (omega * (1 / 100))))"
    unfolding transfer_function_1p_shift_def Let_def shift nu option.case frac r_def
    using assms(2) by simp
  with r show ?thesis by blast
qed

lemma sample_tf_entry_nonzero:
  assumes "0 < r" and "0 < sigma" and "w \<noteq> 0"
  shows "complex_of_real (sqrt 2 / sigma * r) / (1 + Complex 0 w) * Complex 0 w \<noteq> 0"
proof -
  have "1 + Complex 0 w \<noteq> 0" by (simp add: complex_eq_iff)
  moreover have "Complex 0 w \<noteq> 0" using assms(3) by (simp add: complex_eq_iff)
  moreover have "complex_of_real (sqrt 2 / sigma * r) \<noteq> 0" using assms(1,2) by simp
  ultimately show ?thesis by simp
qed

text \<open>
  Claim C1. The claim, like the docstring of \<open>transfer_function\<close> (``one array for each
  population ... the values of the transfer function corresponding to the given omegas''),
  gives the result one row per population and one column per frequency. The outer
  comprehension of the function runs over the frequencies and the inner one over the
  populations, so the rows of the result belong to the frequencies
  (lemma \<open>transfer_function_layout\<close>). For two populations, with mean input 0 and standard
  deviations 5 mV and 6 mV, and the single frequency \<open>\<omega> = 1\<close>, the function returns one
  row of two non-zero entries, where the claim and the docstring ask for two rows of one
  entry.
\<close>

theorem transfer_function_frequency_major:
  "\<exists>a b. transfer_function sample_lib [0, 0] [5, 6] (1 / 100) (1 / 2000) (2 / 1000) 15 0 2 [1]
            = Some (Inr [[a, b]]) \<and> a \<noteq> 0 \<and> b \<noteq> 0"
proof -
  have omega: "\<not> \<bar>1 :: real\<bar> < 1 / 10 ^ 15" by simp
  obtain r1 where r1: "0 < r1"
    "transfer_function_1p_shift sample_lib 0 5 (1 / 100) (1 / 2000) (2 / 1000) 15 0 1
       = Some (Inr (of_real (sqrt 2 / 5 * r1) / (1 + Complex 0 (1 * (1 / 100)))
                    * Complex 0 (1 * (1 / 100))))"
    using sample_tf_entry [OF _ omega, of 5] by auto
  obtain r2 where r2: "0 < r2"
    "transfer_function_1p_shift sample_lib 0 6 (1 / 100) (1 / 2000) (2 / 1000) 15 0 1
       = Some (Inr (of_real (sqrt 2 / 6 * r2) / (1 + Complex 0 (1 * (1 / 100)))
                    * Complex 0 (1 * (1 / 100))))"
    using sample_tf_entry [OF _ omega, of 6] by auto
  define a where "a = complex_of_real (sqrt 2 / 5 * r1) / (1 + Complex 0 (1 * (1 / 100)))
                        * Complex 0 (1 * (1 / 100))"
  define b where "b = complex_of_real (sqrt 2 / 6 * r2) / (1 + Complex 0 (1 * (1 / 100)))
                        * Complex 0 (1 * (1 / 100))"
  have "a \<noteq> 0" unfolding a_def using r1(1) by (intro sample_tf_entry_nonzero) simp_all
  moreover have "b \<noteq> 0" unfolding b_def using r2(1) by (intro sample_tf_entry_nonzero) simp_all
  moreover have "transfer_function sample_lib [0, 0] [5, 6] (1 / 100) (1 / 2000) (2 / 1000) 15 0 2 [1]
                   = Some (Inr [[a, b]])"
    using r1(2) r2(2) unfolding a_def [symmetric] b_def [symmetric]
    by (simp add: transfer_function_layout less_Suc_eq nth_Cons')
  ultimately show ?thesis by blast
qed

end
